theory Spec2Isabelle
  imports Main "HOL-Library.Sublist"
begin

section \<open>Go integers\<close>

text \<open>
  Go's \<^verbatim>\<open>int\<close> and \<^verbatim>\<open>int64\<close> are 64-bit two's complement numbers. They are modelled
  as \<^typ>\<open>int\<close>; where the program does arithmetic that can leave the range, the
  wrap-around is written out with \<open>int64\<close>. Source positions (\<^verbatim>\<open>token.Pos\<close>),
  offsets, lines and columns are only compared, or moved by a few bytes from a
  position inside a file, and stay plain.
\<close>

definition MaxInt :: int where
  "MaxInt = 9223372036854775807"

definition MinInt :: int where
  "MinInt = - 9223372036854775808"

definition int64 :: "int \<Rightarrow> int" where
  "int64 x = (x + 9223372036854775808) mod 18446744073709551616 - 9223372036854775808"

section \<open>Data model\<close>

text \<open>\<^verbatim>\<open>type extent struct\<close>; \<^verbatim>\<open>StmtExtent\<close> is the same struct under another name.\<close>

record extent =
  startOffset :: int
  startLine :: int
  startCol :: int
  endOffset :: int
  endLine :: int
  endCol :: int

type_synonym StmtExtent = extent

text \<open>\<^verbatim>\<open>type FuncExtent struct\<close>: an embedded extent, a name and the statements.\<close>

record FuncExtent = extent +
  name :: string
  stmts :: "StmtExtent list"

text \<open>
  Modelled from the spec: \<^verbatim>\<open>gittool.Section\<close> and \<^verbatim>\<open>gittool.Change\<close>, declared in the
  package \<^verbatim>\<open>gittool\<close>, the diff hunks of one file. The specification gives a change
  as \<^verbatim>\<open>{FileName, Sections: ordered list of {StartLine, EndLine}}\<close>; the line numbers
  are Go ints, as \<^verbatim>\<open>findState\<close> compares them with those of an extent.
\<close>

record Section =
  StartLine :: int
  EndLine :: int

record Change =
  FileName :: string
  Sections :: "Section list"

text \<open>
  \<^verbatim>\<open>cover.ProfileBlock\<close> and the two fields of \<^verbatim>\<open>cover.Profile\<close> that the
  program reads.
\<close>

record ProfileBlock =
  StartLine :: int
  StartCol :: int
  EndLine :: int
  EndCol :: int
  NumStmt :: int
  Count :: int

record Profile =
  FileName :: string
  Blocks :: "ProfileBlock list"

text \<open>
  Modelled from the spec: the coverage model that \<^verbatim>\<open>Parse\<close> builds, whose types
  \<^verbatim>\<open>State\<close>, \<^verbatim>\<open>Mode\<close>, \<^verbatim>\<open>Statement\<close>, \<^verbatim>\<open>Function\<close> and \<^verbatim>\<open>Package\<close> are declared in
  another file of the package. The fields are those that the specification lists and
  \<^verbatim>\<open>convertProfile\<close> writes; \<open>Reached\<close> is an \<^verbatim>\<open>int64\<close>.
\<close>

datatype State = Original | Changed

datatype Mode = Keep | Ignore

record Statement =
  StartLine :: int
  EndLine :: int
  Start :: int
  End :: int
  Reached :: int
  Mode :: Mode
  State :: State

record Function =
  Name :: string
  File :: string
  Start :: int
  End :: int
  StartLine :: int
  EndLine :: int
  Statements :: "Statement list"

record Package =
  Name :: string
  Functions :: "Function list"

text \<open>
  \<^verbatim>\<open>type statement struct\<close>, the wrapper that pairs a \<^verbatim>\<open>*Statement\<close> with
  its \<^verbatim>\<open>*StmtExtent\<close>. Every \<^verbatim>\<open>Statement\<close> is allocated once, in
  \<^verbatim>\<open>convertProfile\<close>, and is reached through the wrapper and through its function's
  \<^verbatim>\<open>Statements\<close>; the model keeps the wrappers in their list and copies the
  statements into the functions after the last write.
\<close>

record statement =
  Statement :: Statement
  StmtExtent :: StmtExtent

text \<open>
  Modelled from the spec: \<^verbatim>\<open>annotation.IgnoreProfile\<close>, declared in the
  annotation package, of which the program reads the fields \<^verbatim>\<open>Type\<close> (compared
  with \<^verbatim>\<open>annotation.FILE_IGNORE\<close>) and \<^verbatim>\<open>IgnoreBlocks\<close> (a map keyed by profile
  blocks, of which only the key set is read). The specification gives the type as
  \<^verbatim>\<open>IgnoreProfile{Type: None|FileIgnore, IgnoreBlocks: set of Block}\<close>.
\<close>

datatype IgnoreType = NO_IGNORE | FILE_IGNORE

record IgnoreProfile =
  Type :: IgnoreType
  IgnoreBlocks :: "ProfileBlock set"

section \<open>Errors, panics and calls that do not return\<close>

text \<open>
  An error value is either one that a consumed operation returned (named by its kind),
  or made by \<^verbatim>\<open>fmt.Errorf\<close>: without \<^verbatim>\<open>%w\<close> the result has a message only, with
  \<^verbatim>\<open>%w\<close> it has a message prefix and wraps the error it was made from.
\<close>

datatype error =
    Cause string
  | Errorf string
  | ErrorfW string error

text \<open>\<^verbatim>\<open>errors.Is(err, target)\<close>: the target is found along the chain of wrapped errors.\<close>

fun carries :: "error \<Rightarrow> error \<Rightarrow> bool" where
  "carries (ErrorfW tag e) target = (ErrorfW tag e = target \<or> carries e target)"
| "carries e target = (e = target)"

datatype panic = NilPointerDereference | UnexpectedNodeTypeInIf | IndexOutOfRange

text \<open>What a call does: it returns a value, it panics, or it never returns.\<close>

datatype 'a outcome = Returns 'a | Panics panic | Diverges

section \<open>Diff correlation\<close>

text \<open>
  The inner loop of \<^verbatim>\<open>findState\<close>,
  \<^verbatim>\<open>for i := s.StartLine; i <= s.EndLine; i++\<close>, from the counter value \<open>i\<close> on.
  It answers \<open>True\<close> when it reaches \<^verbatim>\<open>return Changed\<close> and \<open>False\<close> when the loop
  condition fails. The counter is a Go \<^verbatim>\<open>int\<close>, so \<^verbatim>\<open>i++\<close> wraps; for
  \<^verbatim>\<open>EndLine = MaxInt\<close> the condition never fails, and the loop may run forever: the
  value \<open>None\<close>.
\<close>

partial_function (option) sectionLoop :: "StmtExtent \<Rightarrow> int \<Rightarrow> int \<Rightarrow> bool option" where
  "sectionLoop stmt e i =
     (if i \<le> e
      then (if startLine stmt \<le> i \<and> endLine stmt \<ge> i then Some True
            else sectionLoop stmt e (int64 (i + 1)))
      else Some False)"

text \<open>The outer loop of \<^verbatim>\<open>findState\<close> over \<^verbatim>\<open>change.Sections\<close>.\<close>

fun sectionsLoop :: "StmtExtent \<Rightarrow> Section list \<Rightarrow> State option" where
  "sectionsLoop stmt [] = Some Original"
| "sectionsLoop stmt (s # ss) =
     (case sectionLoop stmt (Section.EndLine s) (Section.StartLine s) of
        None \<Rightarrow> None
      | Some True \<Rightarrow> Some Changed
      | Some False \<Rightarrow> sectionsLoop stmt ss)"

text \<open>\<^verbatim>\<open>findState\<close>; the change is a pointer, \<open>None\<close> is \<^verbatim>\<open>nil\<close>.\<close>

definition findState :: "StmtExtent \<Rightarrow> Change option \<Rightarrow> State option" where
  "findState stmt change =
     (case change of
        None \<Rightarrow> Some Original
      | Some c \<Rightarrow> sectionsLoop stmt (Sections c))"

text \<open>
  The specification's words for the comparison: a section \<open>[StartLine, EndLine]\<close> and
  the statement's \<open>[startLine, endLine]\<close> share at least one line number.
\<close>

definition sharesLine :: "StmtExtent \<Rightarrow> Section \<Rightarrow> bool" where
  "sharesLine stmt s =
     (\<exists>i. Section.StartLine s \<le> i \<and> i \<le> Section.EndLine s \<and>
          startLine stmt \<le> i \<and> i \<le> endLine stmt)"

section \<open>Path matching\<close>

text \<open>
  \<^verbatim>\<open>strings.HasSuffix(s, suffix)\<close> is
  \<^verbatim>\<open>len(s) >= len(suffix) && s[len(s)-len(suffix):] == suffix\<close>; Go strings are byte
  sequences, as \<^typ>\<open>string\<close> is.
\<close>

definition HasSuffix :: "string \<Rightarrow> string \<Rightarrow> bool" where
  "HasSuffix s suf =
     (length s \<ge> length suf \<and> drop (length s - length suf) s = suf)"

definition InFolder :: "string \<Rightarrow> string \<Rightarrow> bool" where
  "InFolder parentDir filepath = HasSuffix parentDir filepath"

text \<open>
  \<^verbatim>\<open>findChange\<close> takes the profile's file name (the only field of the profile it
  reads) and returns the first change that matches, \<open>None\<close> for \<^verbatim>\<open>nil\<close>. The
  elements of \<open>changes\<close> are pointers that are not \<^verbatim>\<open>nil\<close>.
\<close>

fun findChange :: "string \<Rightarrow> Change list \<Rightarrow> Change option" where
  "findChange profileFileName [] = None"
| "findChange profileFileName (change # changes) =
     (if InFolder profileFileName (Change.FileName change) then Some change
      else findChange profileFileName changes)"

section \<open>Reconciliation of profile blocks and statements\<close>

text \<open>
  The two comparisons of the inner loop of \<^verbatim>\<open>convertProfile\<close>, named after the
  comments on their branches: the block is "past the end of the statement", and the
  block is "before the beginning of the statement".
\<close>

definition pastEnd :: "ProfileBlock \<Rightarrow> StmtExtent \<Rightarrow> bool" where
  "pastEnd b s =
     (ProfileBlock.StartLine b > endLine s \<or>
      (ProfileBlock.StartLine b = endLine s \<and> StartCol b \<ge> endCol s))"

definition beforeBeginning :: "ProfileBlock \<Rightarrow> StmtExtent \<Rightarrow> bool" where
  "beforeBeginning b s =
     (ProfileBlock.EndLine b < startLine s \<or>
      (ProfileBlock.EndLine b = startLine s \<and> EndCol b \<le> startCol s))"

text \<open>
  The statements after the two comparisons, for a block \<open>b\<close> that passed both:
  \<^verbatim>\<open>s.Reached += int64(b.Count)\<close>, where the conversion of an \<^verbatim>\<open>int\<close> keeps the
  value and the addition is one of \<^verbatim>\<open>int64\<close>; then the lookup
  \<^verbatim>\<open>ignoreProfile.IgnoreBlocks[b]\<close>, which dereferences \<open>ignoreProfile\<close>.
\<close>

definition addCount :: "ProfileBlock \<Rightarrow> statement \<Rightarrow> statement" where
  "addCount b s =
     s\<lparr>Statement := (Statement s)\<lparr>Reached := int64 (Reached (Statement s) + Count b)\<rparr>\<rparr>"

definition setIgnore :: "statement \<Rightarrow> statement" where
  "setIgnore s = s\<lparr>Statement := (Statement s)\<lparr>Mode := Ignore\<rparr>\<rparr>"

text \<open>
  The inner loop \<^verbatim>\<open>for i, b := range blocks\<close> for one statement. The range
  expression is evaluated once: \<open>blocks\<close> is the slice at the start of the loop, the
  third argument is what is left of it from index \<open>i\<close> on. The result is the statement
  and the slice that the variable \<open>blocks\<close> holds after the loop: \<^verbatim>\<open>blocks[i:]\<close> after
  the first \<^verbatim>\<open>break\<close>, and the slice it held before in every other case.
\<close>

fun rangeBlocks ::
  "IgnoreProfile option \<Rightarrow> ProfileBlock list \<Rightarrow> ProfileBlock list \<Rightarrow> statement
     \<Rightarrow> panic + statement \<times> ProfileBlock list" where
  "rangeBlocks ignoreProfile blocks [] s = Inr (s, blocks)"
| "rangeBlocks ignoreProfile blocks (b # rest) s =
     (if pastEnd b (StmtExtent s) then Inr (s, b # rest)
      else if beforeBeginning b (StmtExtent s) then rangeBlocks ignoreProfile blocks rest s
      else
        (case ignoreProfile of
           None \<Rightarrow> Inl NilPointerDereference
         | Some ip \<Rightarrow>
             Inr (if b \<in> IgnoreBlocks ip then setIgnore (addCount b s) else addCount b s,
                  blocks)))"

text \<open>The statements under \<^verbatim>\<open>if ignoreProfile != nil && ignoreProfile.Type == annotation.FILE_IGNORE\<close>.\<close>

definition isFileIgnore :: "IgnoreProfile option \<Rightarrow> bool" where
  "isFileIgnore ignoreProfile =
     (case ignoreProfile of None \<Rightarrow> False | Some ip \<Rightarrow> Type ip = FILE_IGNORE)"

definition fileIgnored :: "statement \<Rightarrow> statement" where
  "fileIgnored s = s\<lparr>Statement := (Statement s)\<lparr>Mode := Ignore, Reached := 1\<rparr>\<rparr>"

text \<open>
  The outer loop \<^verbatim>\<open>for _, s := range stmts\<close> of \<^verbatim>\<open>convertProfile\<close>, with the
  variable \<open>blocks\<close> passed from one statement to the next. It returns the statements
  as the loop leaves them.
\<close>

fun reconcile ::
  "IgnoreProfile option \<Rightarrow> ProfileBlock list \<Rightarrow> statement list \<Rightarrow> panic + statement list" where
  "reconcile ignoreProfile blocks [] = Inr []"
| "reconcile ignoreProfile blocks (s # ss) =
     (if isFileIgnore ignoreProfile
      then (case reconcile ignoreProfile blocks ss of
              Inl p \<Rightarrow> Inl p
            | Inr ss' \<Rightarrow> Inr (fileIgnored s # ss'))
      else (case rangeBlocks ignoreProfile blocks blocks s of
              Inl p \<Rightarrow> Inl p
            | Inr (s', blocks') \<Rightarrow>
                (case reconcile ignoreProfile blocks' ss of
                   Inl p \<Rightarrow> Inl p
                 | Inr ss' \<Rightarrow> Inr (s' # ss'))))"

text \<open>
  The specification's words: the span of a profile block overlaps the span of a
  statement. A span runs from its start (line, column) to its end (line, column), and
  two spans overlap when each starts before the other ends.
\<close>

definition posLess :: "int \<times> int \<Rightarrow> int \<times> int \<Rightarrow> bool" where
  "posLess p q = (fst p < fst q \<or> (fst p = fst q \<and> snd p < snd q))"

definition overlaps :: "StmtExtent \<Rightarrow> ProfileBlock \<Rightarrow> bool" where
  "overlaps s b =
     (posLess (ProfileBlock.StartLine b, StartCol b) (endLine s, endCol s) \<and>
      posLess (startLine s, startCol s) (ProfileBlock.EndLine b, EndCol b))"

text \<open>
  The order that the profile format and the extractor are to keep: blocks by start
  position, statements by start position.
\<close>

definition blockStartLE :: "ProfileBlock \<Rightarrow> ProfileBlock \<Rightarrow> bool" where
  "blockStartLE a b =
     (ProfileBlock.StartLine a < ProfileBlock.StartLine b \<or>
      (ProfileBlock.StartLine a = ProfileBlock.StartLine b \<and> StartCol a \<le> StartCol b))"

definition stmtStartLE :: "statement \<Rightarrow> statement \<Rightarrow> bool" where
  "stmtStartLE s t =
     (startLine (StmtExtent s) < startLine (StmtExtent t) \<or>
      (startLine (StmtExtent s) = startLine (StmtExtent t) \<and>
       startCol (StmtExtent s) \<le> startCol (StmtExtent t)))"

text \<open>
  What the loop gives a statement when only the first block that overlaps it counts:
  that block's count, and the ignore mode if the block is an ignored one.
\<close>

definition creditFirst :: "IgnoreProfile \<Rightarrow> ProfileBlock list \<Rightarrow> statement \<Rightarrow> statement" where
  "creditFirst ip blocks s =
     (case List.find (overlaps (StmtExtent s)) blocks of
        None \<Rightarrow> s
      | Some b \<Rightarrow> if b \<in> IgnoreBlocks ip then setIgnore (addCount b s) else addCount b s)"

text \<open>
  An example, for the file
  \<^verbatim>\<open>
  func f(x int) int {
  	if x > 0 {
  		return 1
  	}
  	return 0
  }
  \<close>
  with the three blocks that the coverage tool reports for it (the code up to the
  opening brace of the conditional, run 5 times; the body of the conditional, run twice;
  the last return, run 3 times) and the three statements that the extractor records for
  \<open>f\<close> (the conditional, the first return, the last return).
\<close>

definition exBlocks :: "ProfileBlock list" where
  "exBlocks =
     [\<lparr>ProfileBlock.StartLine = 1, StartCol = 19, EndLine = 2, EndCol = 11, NumStmt = 1, Count = 5\<rparr>,
      \<lparr>ProfileBlock.StartLine = 2, StartCol = 11, EndLine = 4, EndCol = 3, NumStmt = 1, Count = 2\<rparr>,
      \<lparr>ProfileBlock.StartLine = 5, StartCol = 2, EndLine = 5, EndCol = 10, NumStmt = 1, Count = 3\<rparr>]"

definition exStatement :: "int \<Rightarrow> int \<Rightarrow> int \<Rightarrow> int \<Rightarrow> int \<Rightarrow> int \<Rightarrow> statement" where
  "exStatement so sl sc eo el ec =
     \<lparr>Statement = \<lparr>Statement.StartLine = sl, EndLine = el, Start = so, End = eo,
                   Reached = 0, Mode = Keep, State = Original\<rparr>,
      StmtExtent = \<lparr>startOffset = so, startLine = sl, startCol = sc,
                    endOffset = eo, endLine = el, endCol = ec\<rparr>\<rparr>"

definition exStmts :: "statement list" where
  "exStmts = [exStatement 21 2 2 45 4 3, exStatement 34 3 3 42 3 11, exStatement 47 5 2 55 5 10]"

definition exIgnoreProfile :: IgnoreProfile where
  "exIgnoreProfile = \<lparr>Type = NO_IGNORE, IgnoreBlocks = {}\<rparr>"

definition exFileIgnore :: IgnoreProfile where
  "exFileIgnore = \<lparr>Type = FILE_IGNORE, IgnoreBlocks = {}\<rparr>"

text \<open>
  Two changes whose paths are both suffixes of the profile path
  \<^verbatim>\<open>/repo/other/pkg/a.go\<close>.
\<close>

definition exChanges :: "Change list" where
  "exChanges =
     [\<lparr>Change.FileName = ''pkg/a.go'', Sections = [\<lparr>Section.StartLine = 1, EndLine = 2\<rparr>]\<rparr>,
      \<lparr>Change.FileName = ''other/pkg/a.go'', Sections = [\<lparr>Section.StartLine = 5, EndLine = 6\<rparr>]\<rparr>]"



section \<open>The syntax tree\<close>

text \<open>
  Positions. A \<^verbatim>\<open>token.Pos\<close> is an integer, \<^verbatim>\<open>token.NoPos\<close> is 0, and
  \<^verbatim>\<open>fset.Position(p)\<close> turns it into offset, line and column. The file set belongs
  to the \<^verbatim>\<open>go/token\<close> library and is a parameter here.
\<close>

record Position =
  Offset :: int
  Line :: int
  Column :: int

type_synonym FileSet = "int \<Rightarrow> Position"

text \<open>
  The statements of \<^verbatim>\<open>go/ast\<close>, with the fields that \<^verbatim>\<open>VisitStmt\<close>, \<^verbatim>\<open>Pos()\<close> and
  \<^verbatim>\<open>End()\<close> read; expressions are left out. The constructors carry, in this order:
  \<^item> \<open>BlockStmt\<close>: \<open>Lbrace\<close>, \<open>List\<close>, \<open>Rbrace\<close>;
  \<^item> \<open>CaseClause\<close> and \<open>CommClause\<close>: \<open>Case\<close>, \<open>Colon\<close>, \<open>Body\<close>;
  \<^item> \<open>ForStmt\<close>: \<open>For\<close>, \<open>Init\<close>, \<open>Post\<close>, \<open>Body\<close>;
  \<^item> \<open>IfStmt\<close>: \<open>If\<close>, \<open>Init\<close>, \<open>Body\<close>, \<open>Else\<close>;
  \<^item> \<open>LabeledStmt\<close>: the position of the label, \<open>Stmt\<close>;
  \<^item> \<open>RangeStmt\<close>: \<open>For\<close>, \<open>Body\<close>; \<open>SelectStmt\<close>: \<open>Select\<close>, \<open>Body\<close>;
  \<^item> \<open>SwitchStmt\<close>: \<open>Switch\<close>, \<open>Init\<close>, \<open>Body\<close>;
  \<^item> \<open>TypeSwitchStmt\<close>: \<open>Switch\<close>, \<open>Init\<close>, \<open>Assign\<close>, \<open>Body\<close>;
  \<^item> \<open>OtherStmt\<close>: any other kind of statement (assignment, expression, return,
    go, defer, ...), with its \<open>Pos()\<close> and its \<open>End()\<close>.
  A field that may be \<^verbatim>\<open>nil\<close> is an option. The bodies have the type
  \<^verbatim>\<open>*ast.BlockStmt\<close> in Go; here they are statements, of which the block
  statements are the ones that Go admits.
\<close>

datatype stmt =
    BlockStmt int "stmt list" int
  | CaseClause int int "stmt list"
  | CommClause int int "stmt list"
  | ForStmt int "stmt option" "stmt option" stmt
  | IfStmt int "stmt option" stmt "stmt option"
  | LabeledStmt int stmt
  | RangeStmt int stmt
  | SelectStmt int stmt
  | SwitchStmt int "stmt option" stmt
  | TypeSwitchStmt int "stmt option" stmt stmt
  | OtherStmt int int

text \<open>\<^verbatim>\<open>Pos()\<close> and \<^verbatim>\<open>End()\<close> of \<^verbatim>\<open>go/ast\<close>.\<close>

fun stmtPos :: "stmt \<Rightarrow> int" where
  "stmtPos (BlockStmt lbrace list rbrace) = lbrace"
| "stmtPos (CaseClause casePos colon body) = casePos"
| "stmtPos (CommClause casePos colon body) = casePos"
| "stmtPos (ForStmt for init post body) = for"
| "stmtPos (IfStmt ifPos init body els) = ifPos"
| "stmtPos (LabeledStmt label s) = label"
| "stmtPos (RangeStmt for body) = for"
| "stmtPos (SelectStmt select body) = select"
| "stmtPos (SwitchStmt switch init body) = switch"
| "stmtPos (TypeSwitchStmt switch init assign body) = switch"
| "stmtPos (OtherStmt pos end) = pos"

text \<open>
  \<open>lastEnd d list\<close> is \<^verbatim>\<open>list[n-1].End()\<close> for a list of \<open>n > 0\<close> statements and
  \<open>d\<close> for the empty list. A block ends after its closing brace when that is valid,
  a case or communication clause after its last statement or after its colon.
\<close>

fun stmtEnd :: "stmt \<Rightarrow> int" and lastEnd :: "int \<Rightarrow> stmt list \<Rightarrow> int" where
  "stmtEnd (BlockStmt lbrace list rbrace) =
     (if rbrace \<noteq> 0 then rbrace + 1 else lastEnd (lbrace + 1) list)"
| "stmtEnd (CaseClause casePos colon body) = lastEnd (colon + 1) body"
| "stmtEnd (CommClause casePos colon body) = lastEnd (colon + 1) body"
| "stmtEnd (ForStmt for init post body) = stmtEnd body"
| "stmtEnd (IfStmt ifPos init body els) =
     (case els of Some e \<Rightarrow> stmtEnd e | None \<Rightarrow> stmtEnd body)"
| "stmtEnd (LabeledStmt label s) = stmtEnd s"
| "stmtEnd (RangeStmt for body) = stmtEnd body"
| "stmtEnd (SelectStmt select body) = stmtEnd body"
| "stmtEnd (SwitchStmt switch init body) = stmtEnd body"
| "stmtEnd (TypeSwitchStmt switch init assign body) = stmtEnd body"
| "stmtEnd (OtherStmt pos end) = end"
| "lastEnd d [] = d"
| "lastEnd d (s # ss) = (if ss = [] then stmtEnd s else lastEnd d ss)"

section \<open>The statement extractor\<close>

text \<open>\<^verbatim>\<open>const backupToElse = token.Pos(len("else "))\<close>.\<close>

definition backupToElse :: int where
  "backupToElse = int (length ''else '')"

text \<open>
  The \<^verbatim>\<open>switch stmt := s.Else.(type)\<close> of \<^verbatim>\<open>VisitStmt\<close>: the statement that
  \<^verbatim>\<open>s.Else\<close> is after it, or the panic of the default branch. For a conditional it
  is the new block; for a block it is the same block with \<open>Lbrace\<close> moved.
\<close>

fun elseBlock :: "stmt \<Rightarrow> panic + stmt" where
  "elseBlock (IfStmt ifPos init body els) =
     Inr (BlockStmt (ifPos - backupToElse) [IfStmt ifPos init body els]
            (stmtEnd (IfStmt ifPos init body els)))"
| "elseBlock (BlockStmt lbrace list rbrace) =
     Inr (BlockStmt (lbrace - backupToElse) list rbrace)"
| "elseBlock s = Inl UnexpectedNodeTypeInIf"

text \<open>
  One step after another, where a step either panics or appends statement extents to
  \<^verbatim>\<open>v.function.stmts\<close>: the first panic ends the run, otherwise the extents follow
  each other.
\<close>

fun andThen :: "panic + 'a list \<Rightarrow> panic + 'a list \<Rightarrow> panic + 'a list" where
  "andThen (Inl p) r = Inl p"
| "andThen (Inr xs) (Inl p) = Inl p"
| "andThen (Inr xs) (Inr ys) = Inr (xs @ ys)"

text \<open>The \<^verbatim>\<open>StmtExtent\<close> that the loop of \<^verbatim>\<open>VisitStmt\<close> makes of a statement.\<close>

definition stmtExtent :: "FileSet \<Rightarrow> stmt \<Rightarrow> StmtExtent" where
  "stmtExtent fset s =
     (let start = fset (stmtPos s); end = fset (stmtEnd s)
      in \<lparr>startOffset = Offset start, startLine = Line start, startCol = Column start,
          endOffset = Offset end, endLine = Line end, endCol = Column end\<rparr>)"

text \<open>The first case of the switch in that loop: the kinds that are not recorded.\<close>

fun isListNode :: "stmt \<Rightarrow> bool" where
  "isListNode (BlockStmt lbrace list rbrace) = True"
| "isListNode (CaseClause casePos colon body) = True"
| "isListNode (CommClause casePos colon body) = True"
| "isListNode s = False"

text \<open>A measure for the recursion: the new block of an else branch weighs less than
  the conditional it is made for.\<close>

fun weight :: "stmt \<Rightarrow> nat" and weights :: "stmt list \<Rightarrow> nat" where
  "weight (BlockStmt lbrace list rbrace) = 1 + weights list"
| "weight (CaseClause casePos colon body) = 1 + weights body"
| "weight (CommClause casePos colon body) = 1 + weights body"
| "weight (ForStmt for init post body) =
     1 + (case init of None \<Rightarrow> 0 | Some i \<Rightarrow> weight i)
       + (case post of None \<Rightarrow> 0 | Some p \<Rightarrow> weight p) + weight body"
| "weight (IfStmt ifPos init body els) =
     3 + (case init of None \<Rightarrow> 0 | Some i \<Rightarrow> weight i) + weight body
       + (case els of None \<Rightarrow> 0 | Some e \<Rightarrow> weight e)"
| "weight (LabeledStmt label s) = 1 + weight s"
| "weight (RangeStmt for body) = 1 + weight body"
| "weight (SelectStmt select body) = 1 + weight body"
| "weight (SwitchStmt switch init body) =
     1 + (case init of None \<Rightarrow> 0 | Some i \<Rightarrow> weight i) + weight body"
| "weight (TypeSwitchStmt switch init assign body) =
     1 + (case init of None \<Rightarrow> 0 | Some i \<Rightarrow> weight i) + weight assign + weight body"
| "weight (OtherStmt pos end) = 0"
| "weights [] = 0"
| "weights (s # ss) = 1 + weight s + weights ss"

text \<open>
  \<^verbatim>\<open>VisitStmt\<close>: the type switch, and the loop over \<open>*statements\<close> for the three
  kinds that set it (\<open>visitStatements\<close>). The result is the list of extents that the
  call appends to \<^verbatim>\<open>v.function.stmts\<close>, in the order of the appends.
\<close>

function VisitStmt :: "FileSet \<Rightarrow> stmt \<Rightarrow> panic + StmtExtent list"
  and visitStatements :: "FileSet \<Rightarrow> stmt list \<Rightarrow> panic + StmtExtent list" where
  "VisitStmt fset (BlockStmt lbrace list rbrace) = visitStatements fset list"
| "VisitStmt fset (CaseClause casePos colon body) = visitStatements fset body"
| "VisitStmt fset (CommClause casePos colon body) = visitStatements fset body"
| "VisitStmt fset (ForStmt for init post body) =
     andThen (case init of None \<Rightarrow> Inr [] | Some i \<Rightarrow> VisitStmt fset i)
    (andThen (case post of None \<Rightarrow> Inr [] | Some p \<Rightarrow> VisitStmt fset p)
             (VisitStmt fset body))"
| "VisitStmt fset (IfStmt ifPos init body els) =
     andThen (case init of None \<Rightarrow> Inr [] | Some i \<Rightarrow> VisitStmt fset i)
    (andThen (VisitStmt fset body)
       (case els of
          None \<Rightarrow> Inr []
        | Some e \<Rightarrow>
            (case elseBlock e of
               Inl p \<Rightarrow> Inl p
             | Inr block \<Rightarrow> VisitStmt fset block)))"
| "VisitStmt fset (LabeledStmt label s) = VisitStmt fset s"
| "VisitStmt fset (RangeStmt for body) = VisitStmt fset body"
| "VisitStmt fset (SelectStmt select body) = VisitStmt fset body"
| "VisitStmt fset (SwitchStmt switch init body) =
     andThen (case init of None \<Rightarrow> Inr [] | Some i \<Rightarrow> VisitStmt fset i)
             (VisitStmt fset body)"
| "VisitStmt fset (TypeSwitchStmt switch init assign body) =
     andThen (case init of None \<Rightarrow> Inr [] | Some i \<Rightarrow> VisitStmt fset i)
    (andThen (VisitStmt fset assign) (VisitStmt fset body))"
| "VisitStmt fset (OtherStmt pos end) = Inr []"
| "visitStatements fset [] = Inr []"
| "visitStatements fset (s # ss) =
     andThen (Inr (if isListNode s then [] else [stmtExtent fset s]))
    (andThen (VisitStmt fset s) (visitStatements fset ss))"
  by pat_completeness auto
termination
proof (relation "measure (\<lambda>x. case x of Inl (fset, s) \<Rightarrow> weight s
                                        | Inr (fset, ss) \<Rightarrow> weights ss)")
  fix fset :: FileSet and ifPos :: int and init :: "stmt option" and body :: stmt
    and els :: "stmt option" and e block :: stmt
  assume "els = Some e" and "elseBlock e = Inr block"
  then show "(Inl (fset, block), Inl (fset, IfStmt ifPos init body els))
               \<in> measure (\<lambda>x. case x of Inl (fset, s) \<Rightarrow> weight s
                                       | Inr (fset, ss) \<Rightarrow> weights ss)"
    by (cases e) auto
qed auto


text \<open>
  What the Go parser builds for \<^verbatim>\<open>Else\<close>: its \<^verbatim>\<open>parseIfStmt\<close> takes, after
  \<^verbatim>\<open>else\<close>, a conditional or a block, and reports a syntax error for anything else,
  so that \<^verbatim>\<open>findFuncs\<close> returns the error and visits nothing. \<open>parserShaped\<close> says
  this of every conditional of a tree.
\<close>

fun isIfOrBlock :: "stmt \<Rightarrow> bool" where
  "isIfOrBlock (IfStmt ifPos init body els) = True"
| "isIfOrBlock (BlockStmt lbrace list rbrace) = True"
| "isIfOrBlock s = False"

fun parserShaped :: "stmt \<Rightarrow> bool" where
  "parserShaped (BlockStmt lbrace list rbrace) = (\<forall>s \<in> set list. parserShaped s)"
| "parserShaped (CaseClause casePos colon body) = (\<forall>s \<in> set body. parserShaped s)"
| "parserShaped (CommClause casePos colon body) = (\<forall>s \<in> set body. parserShaped s)"
| "parserShaped (ForStmt for init post body) =
     ((case init of None \<Rightarrow> True | Some i \<Rightarrow> parserShaped i) \<and>
      (case post of None \<Rightarrow> True | Some p \<Rightarrow> parserShaped p) \<and> parserShaped body)"
| "parserShaped (IfStmt ifPos init body els) =
     ((case init of None \<Rightarrow> True | Some i \<Rightarrow> parserShaped i) \<and> parserShaped body \<and>
      (case els of None \<Rightarrow> True | Some e \<Rightarrow> isIfOrBlock e \<and> parserShaped e))"
| "parserShaped (LabeledStmt label s) = parserShaped s"
| "parserShaped (RangeStmt for body) = parserShaped body"
| "parserShaped (SelectStmt select body) = parserShaped body"
| "parserShaped (SwitchStmt switch init body) =
     ((case init of None \<Rightarrow> True | Some i \<Rightarrow> parserShaped i) \<and> parserShaped body)"
| "parserShaped (TypeSwitchStmt switch init assign body) =
     ((case init of None \<Rightarrow> True | Some i \<Rightarrow> parserShaped i) \<and> parserShaped assign \<and>
      parserShaped body)"
| "parserShaped (OtherStmt pos end) = True"

text \<open>
  Trees whose positions are those of a source text: every position is valid, a
  statement starts before it ends, the parts of a statement start after the statement's
  own first token and follow each other in the order of the text, each starting no
  earlier than the end of the one before, and a block holds its statements between its
  braces. \<open>chained c list\<close> says it of a statement list that starts at or after \<open>c\<close>.
\<close>

fun startsFrom :: "int \<Rightarrow> stmt option \<Rightarrow> bool" where
  "startsFrom c None = True"
| "startsFrom c (Some s) = (c \<le> stmtPos s)"

fun wellPositioned :: "stmt \<Rightarrow> bool" and chained :: "int \<Rightarrow> stmt list \<Rightarrow> bool" where
  "wellPositioned (BlockStmt lbrace list rbrace) =
     (0 < lbrace \<and> lbrace < rbrace \<and> chained (lbrace + 1) list \<and>
      lastEnd (lbrace + 1) list \<le> rbrace)"
| "wellPositioned (CaseClause casePos colon body) =
     (0 < casePos \<and> casePos < colon \<and> chained (colon + 1) body)"
| "wellPositioned (CommClause casePos colon body) =
     (0 < casePos \<and> casePos < colon \<and> chained (colon + 1) body)"
| "wellPositioned (ForStmt for init post body) =
     (0 < for \<and> for < stmtPos body \<and> wellPositioned body \<and>
      (case init of
         None \<Rightarrow> True
       | Some i \<Rightarrow> for < stmtPos i \<and> wellPositioned i \<and> startsFrom (stmtEnd i) post \<and>
                   stmtEnd i \<le> stmtPos body) \<and>
      (case post of
         None \<Rightarrow> True
       | Some p \<Rightarrow> for < stmtPos p \<and> wellPositioned p \<and> stmtEnd p \<le> stmtPos body))"
| "wellPositioned (IfStmt ifPos init body els) =
     (0 < ifPos \<and> ifPos < stmtPos body \<and> wellPositioned body \<and>
      (case init of
         None \<Rightarrow> True
       | Some i \<Rightarrow> ifPos < stmtPos i \<and> wellPositioned i \<and> stmtEnd i \<le> stmtPos body) \<and>
      (case els of
         None \<Rightarrow> True
       | Some e \<Rightarrow> stmtEnd body \<le> stmtPos e \<and> wellPositioned e))"
| "wellPositioned (LabeledStmt label s) = (0 < label \<and> label < stmtPos s \<and> wellPositioned s)"
| "wellPositioned (RangeStmt for body) = (0 < for \<and> for < stmtPos body \<and> wellPositioned body)"
| "wellPositioned (SelectStmt select body) =
     (0 < select \<and> select < stmtPos body \<and> wellPositioned body)"
| "wellPositioned (SwitchStmt switch init body) =
     (0 < switch \<and> switch < stmtPos body \<and> wellPositioned body \<and>
      (case init of
         None \<Rightarrow> True
       | Some i \<Rightarrow> switch < stmtPos i \<and> wellPositioned i \<and> stmtEnd i \<le> stmtPos body))"
| "wellPositioned (TypeSwitchStmt switch init assign body) =
     (0 < switch \<and> switch < stmtPos assign \<and> wellPositioned assign \<and>
      stmtEnd assign \<le> stmtPos body \<and> wellPositioned body \<and>
      (case init of
         None \<Rightarrow> True
       | Some i \<Rightarrow> switch < stmtPos i \<and> wellPositioned i \<and> stmtEnd i \<le> stmtPos assign))"
| "wellPositioned (OtherStmt pos end) = (0 < pos \<and> pos < end)"
| "chained c [] = True"
| "chained c (s # ss) = (c \<le> stmtPos s \<and> wellPositioned s \<and> chained (stmtEnd s) ss)"

text \<open>
  A file set under which, between the positions \<open>lo\<close> and \<open>hi\<close> (the file), a later
  position has a larger offset; in \<^verbatim>\<open>go/token\<close> the offset is the position minus the
  base of the file.
\<close>

definition offsetsIncrease :: "FileSet \<Rightarrow> int \<Rightarrow> int \<Rightarrow> bool" where
  "offsetsIncrease fset lo hi =
     (\<forall>p q. lo \<le> p \<and> p < q \<and> q \<le> hi \<longrightarrow> Offset (fset p) < Offset (fset q))"

text \<open>
  The start offsets of the extents \<open>out\<close> are the offsets of positions that increase
  strictly and lie from \<open>a\<close> up to, but not including, \<open>b\<close>.
\<close>

definition startsWithin :: "FileSet \<Rightarrow> int \<Rightarrow> int \<Rightarrow> StmtExtent list \<Rightarrow> bool" where
  "startsWithin fset a b out =
     (\<exists>ps. map startOffset out = map (\<lambda>p. Offset (fset p)) ps \<and> sorted_wrt (<) ps \<and>
           (\<forall>p \<in> set ps. a \<le> p \<and> p < b))"

text \<open>
  Examples. The file set of a file of one line with base 1, and the bodies of
  \<^verbatim>\<open>func f() { if a { x() } else if b { y() } }\<close>,
  \<^verbatim>\<open>func f() { if a { x() } else { y() } }\<close> and
  \<^verbatim>\<open>func g() { for i := 0; i < n; i++ { x() } }\<close>,
  each function being the whole file.
\<close>

definition exFset :: FileSet where
  "exFset p = \<lparr>Offset = p - 1, Line = 1, Column = p\<rparr>"

definition exElseIf :: stmt where
  "exElseIf = IfStmt 30 None (BlockStmt 35 [OtherStmt 37 40] 41) None"

definition exIfBody :: stmt where
  "exIfBody =
     BlockStmt 10 [IfStmt 12 None (BlockStmt 17 [OtherStmt 19 22] 23) (Some exElseIf)] 43"

definition exIfElseBody :: stmt where
  "exIfElseBody =
     BlockStmt 10 [IfStmt 12 None (BlockStmt 17 [OtherStmt 19 22] 23)
                     (Some (BlockStmt 30 [OtherStmt 32 35] 36))] 38"



section \<open>The function visitor\<close>

text \<open>
  The expressions that \<^verbatim>\<open>exprName\<close> tells apart, and the nodes that \<^verbatim>\<open>Visit\<close> tells
  apart. A \<open>FuncLit\<close> carries the position of its \<^verbatim>\<open>func\<close> keyword and its body; a
  \<open>FuncDecl\<close> carries the position of its \<^verbatim>\<open>func\<close> keyword, its name, the types of
  the fields of its receiver list, if it has one, and its body, if it has one. Both
  start at the keyword and, having a body, end where the body ends.
\<close>

datatype expr = StarExpr expr | IndexExpr expr expr | Ident string | OtherExpr

datatype node =
    FuncLit int "stmt option"
  | FuncDecl int string "expr list option" "stmt option"
  | OtherNode

fun exprName :: "expr \<Rightarrow> string" where
  "exprName (StarExpr x) = exprName x"
| "exprName (IndexExpr x index) = exprName x @ ''['' @ exprName index @ '']''"
| "exprName (Ident n) = n"
| "exprName OtherExpr = []"

text \<open>\<^verbatim>\<open>functionName\<close>; \<^verbatim>\<open>f.Recv.List[0]\<close> panics on an empty list.\<close>

fun functionName :: "string \<Rightarrow> expr list option \<Rightarrow> panic + string" where
  "functionName n None = Inr n"
| "functionName n (Some []) = Inl IndexOutOfRange"
| "functionName n (Some (t # ts)) = Inr (exprName t @ ''.'' @ n)"

text \<open>The verb \<^verbatim>\<open>%d\<close> of \<^verbatim>\<open>fmt.Sprintf\<close>.\<close>

fun showNat :: "nat \<Rightarrow> string" where
  "showNat n =
     (if n < 10 then [''0123456789'' ! n]
      else showNat (n div 10) @ [''0123456789'' ! (n mod 10)])"

definition showInt :: "int \<Rightarrow> string" where
  "showInt i = (if i < 0 then CHR ''-'' # showNat (nat (- i)) else showNat (nat i))"

text \<open>
  The part of \<^verbatim>\<open>Visit\<close> under \<^verbatim>\<open>if body != nil\<close>: the function extent that is
  appended to \<^verbatim>\<open>v.funcs\<close>, with the statements that \<^verbatim>\<open>sv.VisitStmt(body)\<close> appends
  to it. An empty name is replaced by \<^verbatim>\<open>@line:column\<close>.
\<close>

definition visitBody :: "FileSet \<Rightarrow> int \<Rightarrow> string \<Rightarrow> stmt option \<Rightarrow> panic + FuncExtent list" where
  "visitBody fset pos n body =
     (case body of
        None \<Rightarrow> Inr []
      | Some b \<Rightarrow>
          (let start = fset pos; end = fset (stmtEnd b);
               n' = (if n = [] then ''@'' @ showInt (Line start) @ '':'' @ showInt (Column start)
                     else n)
           in case VisitStmt fset b of
                Inl p \<Rightarrow> Inl p
              | Inr ss \<Rightarrow>
                  Inr [\<lparr>startOffset = Offset start, startLine = Line start,
                        startCol = Column start, endOffset = Offset end, endLine = Line end,
                        endCol = Column end, name = n', stmts = ss\<rparr>]))"

fun Visit :: "FileSet \<Rightarrow> node \<Rightarrow> panic + FuncExtent list" where
  "Visit fset (FuncLit pos body) = visitBody fset pos [] body"
| "Visit fset (FuncDecl pos n recv body) =
     (case functionName n recv of
        Inl p \<Rightarrow> Inl p
      | Inr n' \<Rightarrow> visitBody fset pos n' body)"
| "Visit fset OtherNode = Inr []"

text \<open>
  \<^verbatim>\<open>ast.Walk(visitor, parsedFile)\<close> calls \<^verbatim>\<open>Visit\<close> on the nodes of the file in
  depth-first order; the argument is that sequence of nodes.
\<close>

fun Walk :: "FileSet \<Rightarrow> node list \<Rightarrow> panic + FuncExtent list" where
  "Walk fset [] = Inr []"
| "Walk fset (n # ns) = andThen (Visit fset n) (Walk fset ns)"

section \<open>The consumed operations and the parser\<close>

text \<open>\<^verbatim>\<open>build.Package\<close>, of which \<^verbatim>\<open>findFile\<close> reads two fields.\<close>

record buildPackage =
  Dir :: string
  ImportPath :: string

text \<open>
  The operations that the parser consumes, as parameters:
  \<^verbatim>\<open>cover.ParseProfiles\<close>; \<^verbatim>\<open>build.Import(dir, ".", build.FindOnly)\<close>;
  \<^verbatim>\<open>filepath.Join\<close>; the verb \<^verbatim>\<open>%q\<close>; \<^verbatim>\<open>annotation.ParseIgnoreProfiles\<close>, whose
  result is a pointer; \<^verbatim>\<open>parser.ParseFile\<close> with a new file set, giving the file set
  and the nodes of the file in the order of \<^verbatim>\<open>ast.Walk\<close>. The aggregate \<^verbatim>\<open>Packages\<close>
  and its \<^verbatim>\<open>AddPackage\<close> are declared in another file of the package: the type is
  \<open>'p\<close>, given with its zero value and the method. The method is given the package
  as it is at the time of the call.
\<close>

record 'p env =
  ParseProfiles :: "string \<Rightarrow> error + Profile list"
  Import :: "string \<Rightarrow> error + buildPackage"
  Join :: "string \<Rightarrow> string \<Rightarrow> string"
  Quote :: "string \<Rightarrow> string"
  ParseIgnoreProfiles :: "string \<Rightarrow> Profile \<Rightarrow> error + IgnoreProfile option"
  ParseFile :: "string \<Rightarrow> error + FileSet \<times> node list"
  zeroPackages :: 'p
  AddPackage :: "'p \<Rightarrow> Package \<Rightarrow> 'p"

text \<open>
  \<^verbatim>\<open>type Parser struct\<close>, without the logger. The map \<open>packages\<close> holds pointers to
  packages that \<^verbatim>\<open>convertProfile\<close> changes in place, and \<^verbatim>\<open>Parse\<close> ranges over it, in
  an order that Go leaves open: it is a list of keys with their packages, in the order
  of their insertion.
\<close>

record Parser =
  packages :: "(string \<times> Package) list"
  packagesCache :: "string \<rightharpoonup> buildPackage"
  coverProfileFiles :: "string list"

fun setPackage :: "string \<Rightarrow> Package \<Rightarrow> (string \<times> Package) list \<Rightarrow> (string \<times> Package) list" where
  "setPackage k v [] = [(k, v)]"
| "setPackage k v ((k', v') # rest) =
     (if k = k' then (k, v) # rest else (k', v') # setPackage k v rest)"

text \<open>\<^verbatim>\<open>filepath.Split\<close> with the separator \<^verbatim>\<open>/\<close>, and \<^verbatim>\<open>strings.TrimSuffix\<close>.\<close>

definition Split :: "string \<Rightarrow> string \<times> string" where
  "Split path =
     (let file = rev (takeWhile (\<lambda>c. c \<noteq> CHR ''/'') (rev path))
      in (take (length path - length file) path, file))"

definition TrimSuffix :: "string \<Rightarrow> string \<Rightarrow> string" where
  "TrimSuffix s suf = (if HasSuffix s suf then take (length s - length suf) s else s)"

text \<open>
  \<^verbatim>\<open>findFile\<close>: the file name and the package path, with the cache as the call
  leaves it, or the error. The message of the error is \<^verbatim>\<open>can't find\<close>, the quoted
  file name and the message of the error that it wraps.
\<close>

definition findFile ::
  "'p env \<Rightarrow> (string \<rightharpoonup> buildPackage) \<Rightarrow> string
     \<Rightarrow> error + (string \<times> string) \<times> (string \<rightharpoonup> buildPackage)" where
  "findFile env cache path =
     (let (dir0, file) = Split path;
          dir = (if dir0 \<noteq> [] then TrimSuffix dir0 ''/'' else dir0)
      in case cache dir of
           Some pkg \<Rightarrow> Inr ((Join env (Dir pkg) file, ImportPath pkg), cache)
         | None \<Rightarrow>
             (case Import env dir of
                Inl err \<Rightarrow> Inl (ErrorfW (''can'' @ [CHR 0x27] @ ''t find '' @ Quote env file) err)
              | Inr pkg \<Rightarrow>
                  Inr ((Join env (Dir pkg) file, ImportPath pkg), cache(dir \<mapsto> pkg))))"

text \<open>
  \<^verbatim>\<open>findFuncs\<close>: the error of the parser, or the function extents of the walk, which
  may panic.
\<close>

definition findFuncs :: "'p env \<Rightarrow> string \<Rightarrow> (error + FuncExtent list) outcome" where
  "findFuncs env file =
     (case ParseFile env file of
        Inl err \<Rightarrow> Returns (Inl err)
      | Inr (fset, nodes) \<Rightarrow>
          (case Walk fset nodes of
             Inl p \<Rightarrow> Panics p
           | Inr funcs \<Rightarrow> Returns (Inr funcs)))"

text \<open>
  The first loops of \<^verbatim>\<open>convertProfile\<close>: a wrapper for every statement extent of a
  function, with a new \<^verbatim>\<open>Statement\<close> whose \<open>Reached\<close> is zero; and for every function
  extent the new \<^verbatim>\<open>Function\<close> with its wrappers. \<open>None\<close> stands for a call of
  \<^verbatim>\<open>findState\<close> that does not return.
\<close>

fun newStatements :: "Change option \<Rightarrow> StmtExtent list \<Rightarrow> statement list option" where
  "newStatements change [] = Some []"
| "newStatements change (se # ses) =
     (case findState se change of
        None \<Rightarrow> None
      | Some st \<Rightarrow>
          (case newStatements change ses of
             None \<Rightarrow> None
           | Some ss \<Rightarrow>
               Some (\<lparr>Statement =
                        \<lparr>Statement.StartLine = startLine se, EndLine = endLine se,
                         Start = startOffset se, End = endOffset se,
                         Reached = 0, Mode = Keep, State = st\<rparr>,
                      StmtExtent = se\<rparr> # ss)))"

fun newFunctions ::
  "string \<Rightarrow> Change option \<Rightarrow> FuncExtent list \<Rightarrow> (Function \<times> statement list) list option" where
  "newFunctions file change [] = Some []"
| "newFunctions file change (fe # fes) =
     (case newStatements change (stmts fe) of
        None \<Rightarrow> None
      | Some ss \<Rightarrow>
          (case newFunctions file change fes of
             None \<Rightarrow> None
           | Some fs \<Rightarrow>
               Some ((\<lparr>Function.Name = name fe, File = file, Start = startOffset fe,
                       End = endOffset fe, StartLine = startLine fe, EndLine = endLine fe,
                       Statements = []\<rparr>, ss) # fs)))"

text \<open>
  The statements of the functions after the reconciliation loop: every function holds
  the pointers to its own statements, which are, in order, the next ones of the list
  that the loop went through.
\<close>

fun fillFunctions :: "(Function \<times> statement list) list \<Rightarrow> statement list \<Rightarrow> Function list" where
  "fillFunctions [] out = []"
| "fillFunctions ((f, ss) # rest) out =
     f\<lparr>Statements := map Statement (take (length ss) out)\<rparr>
       # fillFunctions rest (drop (length ss) out)"

text \<open>
  \<^verbatim>\<open>convertProfile\<close>: the error it returns (\<open>None\<close> for \<^verbatim>\<open>nil\<close>) and the parser as the
  call leaves it.
\<close>

definition convertProfile ::
  "'p env \<Rightarrow> Parser \<Rightarrow> Profile \<Rightarrow> Change option \<Rightarrow> (error option \<times> Parser) outcome" where
  "convertProfile env parser p change =
     (case findFile env (packagesCache parser) (Profile.FileName p) of
        Inl err \<Rightarrow> Returns (Some (ErrorfW ''find file'' err), parser)
      | Inr ((file, pkgpath), cache) \<Rightarrow>
          (let pkg = (case map_of (packages parser) pkgpath of
                        None \<Rightarrow> \<lparr>Package.Name = pkgpath, Functions = []\<rparr>
                      | Some pkg \<Rightarrow> pkg);
               parser1 = parser\<lparr>packagesCache := cache,
                                 packages := setPackage pkgpath pkg (packages parser)\<rparr>
           in case ParseIgnoreProfiles env file p of
                Inl err \<Rightarrow> Returns (Some (Errorf ''parse ignore profile''), parser1)
              | Inr ignoreProfile \<Rightarrow>
                  (case findFuncs env file of
                     Diverges \<Rightarrow> Diverges
                   | Panics x \<Rightarrow> Panics x
                   | Returns (Inl err) \<Rightarrow> Returns (Some (ErrorfW ''find Functions'' err), parser1)
                   | Returns (Inr extents) \<Rightarrow>
                       (case newFunctions file change extents of
                          None \<Rightarrow> Diverges
                        | Some fs \<Rightarrow>
                            (case reconcile ignoreProfile (Blocks p) (concat (map snd fs)) of
                               Inl x \<Rightarrow> Panics x
                             | Inr out \<Rightarrow>
                                 Returns (None,
                                   parser1\<lparr>packages :=
                                     setPackage pkgpath
                                       (pkg\<lparr>Functions := Functions pkg @ fillFunctions fs out\<rparr>)
                                       (packages parser1)\<rparr>))))))"

text \<open>The loop \<^verbatim>\<open>for _, p := range profiles\<close> of \<^verbatim>\<open>Parse\<close>.\<close>

fun convertProfiles ::
  "'p env \<Rightarrow> Parser \<Rightarrow> Profile list \<Rightarrow> Change list \<Rightarrow> (error option \<times> Parser) outcome" where
  "convertProfiles env parser [] changes = Returns (None, parser)"
| "convertProfiles env parser (p # ps) changes =
     (case convertProfile env parser p (findChange (Profile.FileName p) changes) of
        Diverges \<Rightarrow> Diverges
      | Panics x \<Rightarrow> Panics x
      | Returns (Some err, parser') \<Rightarrow>
          Returns (Some (ErrorfW ''covert cover profile'' err), parser')
      | Returns (None, parser') \<Rightarrow> convertProfiles env parser' ps changes)"

text \<open>
  The loop \<^verbatim>\<open>for _, coverProfile := range parser.coverProfileFiles\<close> of \<^verbatim>\<open>Parse\<close>,
  with \<open>result\<close> passed on, and \<^verbatim>\<open>Parse\<close>. The value returned is the pair of the
  pointer to the packages and the error, \<open>None\<close> for \<^verbatim>\<open>nil\<close>.
\<close>

fun parseFiles ::
  "'p env \<Rightarrow> Parser \<Rightarrow> string list \<Rightarrow> Change list \<Rightarrow> 'p
     \<Rightarrow> (('p option \<times> error option) \<times> Parser) outcome" where
  "parseFiles env parser [] changes result = Returns ((Some result, None), parser)"
| "parseFiles env parser (coverProfile # files) changes result =
     (case ParseProfiles env coverProfile of
        Inl err \<Rightarrow> Returns ((None, Some (ErrorfW ''parse cover profile'' err)), parser)
      | Inr profiles \<Rightarrow>
          (case convertProfiles env parser profiles changes of
             Diverges \<Rightarrow> Diverges
           | Panics x \<Rightarrow> Panics x
           | Returns (Some err, parser') \<Rightarrow> Returns ((None, Some err), parser')
           | Returns (None, parser') \<Rightarrow>
               parseFiles env parser' files changes
                 (foldl (AddPackage env) result (map snd (packages parser')))))"

definition Parse ::
  "'p env \<Rightarrow> Parser \<Rightarrow> Change list \<Rightarrow> (('p option \<times> error option) \<times> Parser) outcome" where
  "Parse env parser changes =
     parseFiles env parser (coverProfileFiles parser) changes (zeroPackages env)"

text \<open>What a call returns, apart from the state it leaves.\<close>

fun returned :: "('a \<times> 'b) outcome \<Rightarrow> 'a outcome" where
  "returned (Returns (r, s)) = Returns r"
| "returned (Panics x) = Panics x"
| "returned Diverges = Diverges"

text \<open>
  An example: one coverage profile that names the file \<^verbatim>\<open>m/pkg/a.go\<close>, a package
  found for it, and an annotation parser that fails with an error of its own.
\<close>

definition exEnv :: "Package list env" where
  "exEnv =
     \<lparr>ParseProfiles = (\<lambda>f. Inr [\<lparr>Profile.FileName = ''m/pkg/a.go'', Blocks = []\<rparr>]),
      Import = (\<lambda>dir. Inr \<lparr>Dir = ''/src/m/pkg'', ImportPath = ''m/pkg''\<rparr>),
      Join = (\<lambda>d f. d @ ''/'' @ f),
      Quote = (\<lambda>s. s),
      ParseIgnoreProfiles = (\<lambda>file p. Inl (Cause ''AnnotationError'')),
      ParseFile = (\<lambda>file. Inr (exFset, [])),
      zeroPackages = [],
      AddPackage = (\<lambda>ps p. ps @ [p])\<rparr>"

definition exParser :: Parser where
  "exParser = \<lparr>packages = [], packagesCache = Map.empty, coverProfileFiles = [''c.out'']\<rparr>"

section \<open>Properties\<close>

lemma HasSuffix_suffix: "HasSuffix s t \<longleftrightarrow> suffix t s"
proof
  assume "HasSuffix s t"
  then have "drop (length s - length t) s = t"
    by (simp add: HasSuffix_def)
  then have "s = take (length s - length t) s @ t"
    by (metis append_take_drop_id)
  then show "suffix t s"
    by (metis suffixI)
next
  assume "suffix t s"
  then obtain u where "s = u @ t"
    by (auto simp: suffix_def)
  then show "HasSuffix s t"
    by (simp add: HasSuffix_def)
qed


lemma int64_id: "MinInt \<le> x \<Longrightarrow> x \<le> MaxInt \<Longrightarrow> int64 x = x"
  by (simp add: int64_def MinInt_def MaxInt_def)

lemma sharesLine_max_min:
  "sharesLine stmt s \<longleftrightarrow> max (Section.StartLine s) (startLine stmt) \<le> min (Section.EndLine s) (endLine stmt)"
proof
  assume "sharesLine stmt s"
  then show "max (Section.StartLine s) (startLine stmt) \<le> min (Section.EndLine s) (endLine stmt)"
    by (auto simp: sharesLine_def)
next
  assume m: "max (Section.StartLine s) (startLine stmt) \<le> min (Section.EndLine s) (endLine stmt)"
  show "sharesLine stmt s"
    unfolding sharesLine_def
    by (rule exI [of _ "max (Section.StartLine s) (startLine stmt)"]) (use m in auto)
qed

lemma sectionLoop_returns:
  assumes "MinInt \<le> i" and "e < MaxInt"
  shows "sectionLoop stmt e i =
           Some (\<exists>j. i \<le> j \<and> j \<le> e \<and> startLine stmt \<le> j \<and> j \<le> endLine stmt)"
  using assms
proof (induction "nat (e + 1 - i)" arbitrary: i rule: less_induct)
  case less
  let ?hit = "\<lambda>i. \<exists>j. i \<le> j \<and> j \<le> e \<and> startLine stmt \<le> j \<and> j \<le> endLine stmt"
  show ?case
  proof (cases "i \<le> e")
    case False
    then have "\<not> ?hit i" by auto
    with False show ?thesis
      by (subst sectionLoop.simps) simp
  next
    case le: True
    show ?thesis
    proof (cases "startLine stmt \<le> i \<and> i \<le> endLine stmt")
      case True
      with le have "?hit i" by auto
      with le True show ?thesis
        by (subst sectionLoop.simps) simp
    next
      case False
      from le less.prems have next_i: "int64 (i + 1) = i + 1"
        by (intro int64_id) (auto simp: MinInt_def MaxInt_def)
      have "sectionLoop stmt e (i + 1) = Some (?hit (i + 1))"
        using le less.prems by (intro less.hyps) auto
      moreover have "?hit (i + 1) = ?hit i"
      proof -
        have "i \<le> j \<and> startLine stmt \<le> j \<and> j \<le> endLine stmt \<longleftrightarrow>
                i + 1 \<le> j \<and> startLine stmt \<le> j \<and> j \<le> endLine stmt" for j
          using False by (cases "j = i") auto
        then show ?thesis by blast
      qed
      ultimately have "sectionLoop stmt e (int64 (i + 1)) = Some (?hit i)"
        using next_i by simp
      with le False show ?thesis
        by (subst sectionLoop.simps) auto
    qed
  qed
qed

lemma sectionLoop_sharesLine:
  assumes "MinInt \<le> Section.StartLine s" and "Section.EndLine s < MaxInt"
  shows "sectionLoop stmt (Section.EndLine s) (Section.StartLine s) = Some (sharesLine stmt s)"
  using sectionLoop_returns [OF assms, of stmt] by (simp add: sharesLine_def)

lemma sectionsLoop_returns:
  assumes "\<forall>s \<in> set ss. MinInt \<le> Section.StartLine s \<and> Section.EndLine s < MaxInt"
  shows "sectionsLoop stmt ss =
           Some (if \<exists>s \<in> set ss. sharesLine stmt s then Changed else Original)"
  using assms
proof (induction ss)
  case Nil
  then show ?case by simp
next
  case (Cons s ss)
  then have "sectionLoop stmt (Section.EndLine s) (Section.StartLine s) = Some (sharesLine stmt s)"
    by (intro sectionLoop_sharesLine) auto
  moreover have "sectionsLoop stmt ss =
           Some (if \<exists>s \<in> set ss. sharesLine stmt s then Changed else Original)"
    using Cons by simp
  ultimately show ?case
    by (cases "sharesLine stmt s") simp_all
qed

text \<open>
  C4. Diff correlation. For a statement extent and a change that may be absent:
  \<^verbatim>\<open>findState\<close> returns, and it returns \<open>Changed\<close> exactly when some section
  \<open>[StartLine, EndLine]\<close> of the change shares a line number with the statement's
  \<open>[startLine, endLine]\<close>, and \<open>Original\<close> otherwise, in particular when there is no
  change. The section bounds are Go ints on which the loop counter cannot wrap:
  \<open>StartLine\<close> is at least \<open>MinInt\<close> and \<open>EndLine\<close> is below \<open>MaxInt\<close>.
\<close>

theorem findState_Changed_iff_shares_line:
  assumes "\<forall>c. change = Some c \<longrightarrow>
             (\<forall>s \<in> set (Sections c). MinInt \<le> Section.StartLine s \<and> Section.EndLine s < MaxInt)"
  shows "findState stmt change =
           Some (if \<exists>c. change = Some c \<and> (\<exists>s \<in> set (Sections c). sharesLine stmt s)
                 then Changed else Original)
         \<and> (change = None \<longrightarrow> findState stmt change = Some Original)"
proof (cases change)
  case None
  then show ?thesis by (simp add: findState_def)
next
  case (Some c)
  with assms have "\<forall>s \<in> set (Sections c). MinInt \<le> Section.StartLine s \<and> Section.EndLine s < MaxInt"
    by simp
  from sectionsLoop_returns [OF this, of stmt] Some show ?thesis
    by (simp add: findState_def)
qed

theorem findState_Changed_iff_shares_line_witness:
  "findState \<lparr>startOffset = 40, startLine = 4, startCol = 2,
              endOffset = 70, endLine = 6, endCol = 3\<rparr>
     (Some \<lparr>Change.FileName = ''pkg/a.go'',
            Sections = [\<lparr>Section.StartLine = 1, EndLine = 2\<rparr>, \<lparr>Section.StartLine = 6, EndLine = 9\<rparr>]\<rparr>)
     = Some Changed
   \<and> findState \<lparr>startOffset = 40, startLine = 4, startCol = 2,
              endOffset = 70, endLine = 6, endCol = 3\<rparr>
     (Some \<lparr>Change.FileName = ''pkg/a.go'',
            Sections = [\<lparr>Section.StartLine = 1, EndLine = 3\<rparr>, \<lparr>Section.StartLine = 7, EndLine = 9\<rparr>]\<rparr>)
     = Some Original
   \<and> findState \<lparr>startOffset = 40, startLine = 4, startCol = 2,
              endOffset = 70, endLine = 6, endCol = 3\<rparr> None = Some Original"
proof -
  let ?stmt = "\<lparr>startOffset = 40, startLine = 4, startCol = 2,
                endOffset = 70, endLine = 6, endCol = 3\<rparr>"
  let ?c1 = "\<lparr>Change.FileName = ''pkg/a.go'',
              Sections = [\<lparr>Section.StartLine = 1, EndLine = 2\<rparr>, \<lparr>Section.StartLine = 6, EndLine = 9\<rparr>]\<rparr>"
  let ?c2 = "\<lparr>Change.FileName = ''pkg/a.go'',
              Sections = [\<lparr>Section.StartLine = 1, EndLine = 3\<rparr>, \<lparr>Section.StartLine = 7, EndLine = 9\<rparr>]\<rparr>"
  have h1: "\<forall>c. Some ?c1 = Some c \<longrightarrow>
             (\<forall>s \<in> set (Sections c). MinInt \<le> Section.StartLine s \<and> Section.EndLine s < MaxInt)"
    by (simp add: MinInt_def MaxInt_def)
  have h2: "\<forall>c. Some ?c2 = Some c \<longrightarrow>
             (\<forall>s \<in> set (Sections c). MinInt \<le> Section.StartLine s \<and> Section.EndLine s < MaxInt)"
    by (simp add: MinInt_def MaxInt_def)
  have h3: "\<forall>c. (None :: Change option) = Some c \<longrightarrow>
             (\<forall>s \<in> set (Sections c). MinInt \<le> Section.StartLine s \<and> Section.EndLine s < MaxInt)"
    by simp
  have "findState ?stmt (Some ?c1) = Some Changed"
    using findState_Changed_iff_shares_line [OF h1, of ?stmt]
    by (simp add: sharesLine_max_min)
  moreover have "findState ?stmt (Some ?c2) = Some Original"
    using findState_Changed_iff_shares_line [OF h2, of ?stmt]
    by (simp add: sharesLine_max_min)
  moreover have "findState ?stmt None = Some Original"
    using findState_Changed_iff_shares_line [OF h3, of ?stmt] by simp
  ultimately show ?thesis by blast
qed

lemma findChange_Some_first:
  "findChange p cs = Some c \<longleftrightarrow>
     (\<exists>pre post. cs = pre @ c # post \<and> suffix (Change.FileName c) p \<and>
        (\<forall>c' \<in> set pre. \<not> suffix (Change.FileName c') p))"
proof (induction cs)
  case Nil
  then show ?case by simp
next
  case (Cons a rest)
  show ?case
  proof (cases "suffix (Change.FileName a) p")
    case True
    then have "findChange p (a # rest) = Some a"
      by (simp add: InFolder_def HasSuffix_suffix)
    moreover have "(\<exists>pre post. a # rest = pre @ c # post \<and> suffix (Change.FileName c) p \<and>
        (\<forall>c' \<in> set pre. \<not> suffix (Change.FileName c') p)) \<longleftrightarrow> c = a"
    proof
      assume "\<exists>pre post. a # rest = pre @ c # post \<and> suffix (Change.FileName c) p \<and>
        (\<forall>c' \<in> set pre. \<not> suffix (Change.FileName c') p)"
      then obtain pre post where e: "a # rest = pre @ c # post"
        and n: "\<forall>c' \<in> set pre. \<not> suffix (Change.FileName c') p"
        by blast
      show "c = a"
      proof (cases pre)
        case Nil
        with e show ?thesis by simp
      next
        case (Cons x pre')
        with e have "x = a" by simp
        with Cons n True show ?thesis by simp
      qed
    next
      assume "c = a"
      with True have "a # rest = [] @ c # rest \<and> suffix (Change.FileName c) p \<and>
        (\<forall>c' \<in> set []. \<not> suffix (Change.FileName c') p)"
        by simp
      then show "\<exists>pre post. a # rest = pre @ c # post \<and> suffix (Change.FileName c) p \<and>
        (\<forall>c' \<in> set pre. \<not> suffix (Change.FileName c') p)"
        by blast
    qed
    ultimately show ?thesis by auto
  next
    case False
    then have step: "findChange p (a # rest) = findChange p rest"
      by (simp add: InFolder_def HasSuffix_suffix)
    have "(\<exists>pre post. a # rest = pre @ c # post \<and> suffix (Change.FileName c) p \<and>
        (\<forall>c' \<in> set pre. \<not> suffix (Change.FileName c') p)) \<longleftrightarrow>
          (\<exists>pre post. rest = pre @ c # post \<and> suffix (Change.FileName c) p \<and>
        (\<forall>c' \<in> set pre. \<not> suffix (Change.FileName c') p))"
    proof
      assume "\<exists>pre post. a # rest = pre @ c # post \<and> suffix (Change.FileName c) p \<and>
        (\<forall>c' \<in> set pre. \<not> suffix (Change.FileName c') p)"
      then obtain pre post where e: "a # rest = pre @ c # post"
        and s: "suffix (Change.FileName c) p"
        and n: "\<forall>c' \<in> set pre. \<not> suffix (Change.FileName c') p"
        by blast
      show "\<exists>pre post. rest = pre @ c # post \<and> suffix (Change.FileName c) p \<and>
        (\<forall>c' \<in> set pre. \<not> suffix (Change.FileName c') p)"
      proof (cases pre)
        case Nil
        with e s False show ?thesis by simp
      next
        case (Cons x pre')
        with e n s have "rest = pre' @ c # post \<and> suffix (Change.FileName c) p \<and>
           (\<forall>c' \<in> set pre'. \<not> suffix (Change.FileName c') p)"
          by simp
        then show ?thesis by blast
      qed
    next
      assume "\<exists>pre post. rest = pre @ c # post \<and> suffix (Change.FileName c) p \<and>
        (\<forall>c' \<in> set pre. \<not> suffix (Change.FileName c') p)"
      then obtain pre post where "rest = pre @ c # post" "suffix (Change.FileName c) p"
        "\<forall>c' \<in> set pre. \<not> suffix (Change.FileName c') p"
        by blast
      with False have "a # rest = (a # pre) @ c # post \<and> suffix (Change.FileName c) p \<and>
        (\<forall>c' \<in> set (a # pre). \<not> suffix (Change.FileName c') p)"
        by simp
      then show "\<exists>pre post. a # rest = pre @ c # post \<and> suffix (Change.FileName c) p \<and>
        (\<forall>c' \<in> set pre. \<not> suffix (Change.FileName c') p)"
        by blast
    qed
    with step Cons.IH show ?thesis by simp
  qed
qed

lemma findChange_None_iff:
  "findChange p cs = None \<longleftrightarrow> (\<forall>c \<in> set cs. \<not> suffix (Change.FileName c) p)"
  by (induction cs) (auto simp: InFolder_def HasSuffix_suffix)

text \<open>
  C8, as stated, fails for \<^verbatim>\<open>findChange\<close>. The paths of both changes of the example
  are suffixes of the profile path \<^verbatim>\<open>/repo/other/pkg/a.go\<close>; \<^verbatim>\<open>findChange\<close> returns the
  first, and the second, whose path is a suffix too, is not associated with the
  profile.
\<close>

theorem findChange_second_match_counterexample:
  "findChange ''/repo/other/pkg/a.go'' exChanges = Some (exChanges ! 0)
   \<and> InFolder ''/repo/other/pkg/a.go'' (Change.FileName (exChanges ! 1))
   \<and> suffix (Change.FileName (exChanges ! 1)) ''/repo/other/pkg/a.go''
   \<and> findChange ''/repo/other/pkg/a.go'' exChanges \<noteq> Some (exChanges ! 1)"
  by (simp add: exChanges_def InFolder_def HasSuffix_def suffix_def)

text \<open>
  C8, amended. \<^verbatim>\<open>InFolder(parentDir, filepath)\<close> holds exactly when \<open>filepath\<close> is a
  suffix of \<open>parentDir\<close>, and the two paths of the specification come out as stated.
  \<^verbatim>\<open>findChange\<close> associates a change with a profile exactly when the change's recorded
  file path is a suffix of the profile's file path and no change before it in the list
  has such a path: it is the first match; and it associates none exactly when no
  change's path is a suffix.
\<close>

theorem findChange_first_suffix_match:
  "(InFolder parentDir filepath \<longleftrightarrow> suffix filepath parentDir)
   \<and> InFolder ''/repo/pkg/a.go'' ''pkg/a.go''
   \<and> \<not> InFolder ''/repo/pkg/a.go'' ''pkg/b.go''
   \<and> (findChange p cs = Some c \<longleftrightarrow>
        (\<exists>pre post. cs = pre @ c # post \<and> suffix (Change.FileName c) p \<and>
           (\<forall>c' \<in> set pre. \<not> suffix (Change.FileName c') p)))
   \<and> (findChange p cs = None \<longleftrightarrow> (\<forall>c \<in> set cs. \<not> suffix (Change.FileName c) p))"
proof -
  have "InFolder parentDir filepath \<longleftrightarrow> suffix filepath parentDir"
    by (simp add: InFolder_def HasSuffix_suffix)
  moreover have "InFolder ''/repo/pkg/a.go'' ''pkg/a.go''"
    by (simp add: InFolder_def HasSuffix_def)
  moreover have "\<not> InFolder ''/repo/pkg/a.go'' ''pkg/b.go''"
    by (simp add: InFolder_def HasSuffix_def)
  ultimately show ?thesis
    using findChange_Some_first [of p cs c] findChange_None_iff [of p cs] by blast
qed

theorem findChange_first_suffix_match_witness:
  "findChange ''/repo/other/pkg/a.go'' exChanges = Some (exChanges ! 0)
   \<and> findChange ''/repo/pkg/b.go'' exChanges = None"
proof -
  have split: "exChanges = [] @ (exChanges ! 0) # [exChanges ! 1]"
    by (simp add: exChanges_def)
  have s0: "suffix (Change.FileName (exChanges ! 0)) ''/repo/other/pkg/a.go''"
    by (simp add: exChanges_def suffix_def)
  have "\<exists>pre post. exChanges = pre @ (exChanges ! 0) # post \<and>
          suffix (Change.FileName (exChanges ! 0)) ''/repo/other/pkg/a.go'' \<and>
          (\<forall>c' \<in> set pre. \<not> suffix (Change.FileName c') ''/repo/other/pkg/a.go'')"
    using split s0 by (metis empty_iff empty_set)
  with findChange_first_suffix_match
         [of "''/repo/pkg/a.go''" "''pkg/a.go''" "''/repo/other/pkg/a.go''" exChanges
             "exChanges ! 0"]
  have first: "findChange ''/repo/other/pkg/a.go'' exChanges = Some (exChanges ! 0)"
    by blast
  have none: "\<forall>c \<in> set exChanges. \<not> suffix (Change.FileName c) ''/repo/pkg/b.go''"
    by (simp add: exChanges_def suffix_def)
  with findChange_first_suffix_match
         [of "''/repo/pkg/a.go''" "''pkg/a.go''" "''/repo/pkg/b.go''" exChanges
             "exChanges ! 0"]
  have "findChange ''/repo/pkg/b.go'' exChanges = None"
    by blast
  with first show ?thesis by blast
qed

subsection \<open>Reconciliation\<close>

lemma overlaps_iff: "overlaps s b \<longleftrightarrow> \<not> pastEnd b s \<and> \<not> beforeBeginning b s"
  by (auto simp: overlaps_def posLess_def pastEnd_def beforeBeginning_def)

lemma pastEnd_mono: "pastEnd a s \<Longrightarrow> blockStartLE a b \<Longrightarrow> pastEnd b s"
  by (auto simp: pastEnd_def blockStartLE_def)

lemma beforeBeginning_mono:
  "beforeBeginning b (StmtExtent s) \<Longrightarrow> stmtStartLE s t \<Longrightarrow> beforeBeginning b (StmtExtent t)"
  by (auto simp: beforeBeginning_def stmtStartLE_def)

lemma find_append_none: "\<forall>x \<in> set pre. \<not> P x \<Longrightarrow> List.find P (pre @ ys) = List.find P ys"
  by (induction pre) auto

lemma find_none_all: "\<forall>x \<in> set xs. \<not> P x \<Longrightarrow> List.find P xs = None"
  by (induction xs) auto

text \<open>One statement against a sorted block list.\<close>

lemma rangeBlocks_sorted:
  assumes "sorted_wrt blockStartLE bs"
  shows "(\<forall>b. List.find (overlaps (StmtExtent s)) bs = Some b \<longrightarrow>
            rangeBlocks ignoreProfile cur bs s =
              (case ignoreProfile of
                 None \<Rightarrow> Inl NilPointerDereference
               | Some ip \<Rightarrow>
                   Inr (if b \<in> IgnoreBlocks ip then setIgnore (addCount b s) else addCount b s, cur)))
       \<and> (List.find (overlaps (StmtExtent s)) bs = None \<longrightarrow>
            (\<exists>cur'. rangeBlocks ignoreProfile cur bs s = Inr (s, cur') \<and>
               (cur' = cur \<or>
                (\<exists>pre. bs = pre @ cur' \<and> (\<forall>x \<in> set pre. beforeBeginning x (StmtExtent s))))))"
  using assms
proof (induction bs)
  case Nil
  then show ?case by simp
next
  case (Cons b rest)
  show ?case
  proof (cases "pastEnd b (StmtExtent s)")
    case True
    have "\<forall>x \<in> set (b # rest). pastEnd x (StmtExtent s)"
      using True Cons.prems by (auto intro: pastEnd_mono)
    then have "\<forall>x \<in> set (b # rest). \<not> overlaps (StmtExtent s) x"
      by (simp add: overlaps_iff)
    then have "List.find (overlaps (StmtExtent s)) (b # rest) = None"
      by (rule find_none_all)
    moreover have "rangeBlocks ignoreProfile cur (b # rest) s = Inr (s, b # rest)"
      using True by simp
    moreover have "b # rest = [] @ (b # rest)" by simp
    ultimately show ?thesis by fastforce
  next
    case notPast: False
    show ?thesis
    proof (cases "beforeBeginning b (StmtExtent s)")
      case True
      then have nov: "\<not> overlaps (StmtExtent s) b"
        by (simp add: overlaps_iff)
      have step: "rangeBlocks ignoreProfile cur (b # rest) s = rangeBlocks ignoreProfile cur rest s"
        using notPast True by simp
      have fnd: "List.find (overlaps (StmtExtent s)) (b # rest) = List.find (overlaps (StmtExtent s)) rest"
        using nov by simp
      have IH: "(\<forall>b. List.find (overlaps (StmtExtent s)) rest = Some b \<longrightarrow>
            rangeBlocks ignoreProfile cur rest s =
              (case ignoreProfile of
                 None \<Rightarrow> Inl NilPointerDereference
               | Some ip \<Rightarrow>
                   Inr (if b \<in> IgnoreBlocks ip then setIgnore (addCount b s) else addCount b s, cur)))
       \<and> (List.find (overlaps (StmtExtent s)) rest = None \<longrightarrow>
            (\<exists>cur'. rangeBlocks ignoreProfile cur rest s = Inr (s, cur') \<and>
               (cur' = cur \<or>
                (\<exists>pre. rest = pre @ cur' \<and> (\<forall>x \<in> set pre. beforeBeginning x (StmtExtent s))))))"
        using Cons by simp
      show ?thesis
      proof (intro conjI allI impI)
        fix b'
        assume "List.find (overlaps (StmtExtent s)) (b # rest) = Some b'"
        with fnd IH step
        show "rangeBlocks ignoreProfile cur (b # rest) s =
              (case ignoreProfile of
                 None \<Rightarrow> Inl NilPointerDereference
               | Some ip \<Rightarrow>
                   Inr (if b' \<in> IgnoreBlocks ip then setIgnore (addCount b' s) else addCount b' s, cur))"
          by simp
      next
        assume "List.find (overlaps (StmtExtent s)) (b # rest) = None"
        with fnd IH obtain cur' where c: "rangeBlocks ignoreProfile cur rest s = Inr (s, cur')"
          and d: "cur' = cur \<or>
                (\<exists>pre. rest = pre @ cur' \<and> (\<forall>x \<in> set pre. beforeBeginning x (StmtExtent s)))"
          by auto
        from d have "cur' = cur \<or>
                (\<exists>pre. b # rest = pre @ cur' \<and> (\<forall>x \<in> set pre. beforeBeginning x (StmtExtent s)))"
        proof
          assume "cur' = cur" then show ?thesis by simp
        next
          assume "\<exists>pre. rest = pre @ cur' \<and> (\<forall>x \<in> set pre. beforeBeginning x (StmtExtent s))"
          then obtain pre where "rest = pre @ cur'" "\<forall>x \<in> set pre. beforeBeginning x (StmtExtent s)"
            by blast
          then have "b # rest = (b # pre) @ cur' \<and> (\<forall>x \<in> set (b # pre). beforeBeginning x (StmtExtent s))"
            using True by simp
          then show ?thesis by blast
        qed
        with c step
        show "\<exists>cur'. rangeBlocks ignoreProfile cur (b # rest) s = Inr (s, cur') \<and>
               (cur' = cur \<or>
                (\<exists>pre. b # rest = pre @ cur' \<and> (\<forall>x \<in> set pre. beforeBeginning x (StmtExtent s))))"
          by auto
      qed
    next
      case False
      with notPast have "overlaps (StmtExtent s) b"
        by (simp add: overlaps_iff)
      then have "List.find (overlaps (StmtExtent s)) (b # rest) = Some b"
        by simp
      moreover have "rangeBlocks ignoreProfile cur (b # rest) s =
              (case ignoreProfile of
                 None \<Rightarrow> Inl NilPointerDereference
               | Some ip \<Rightarrow>
                   Inr (if b \<in> IgnoreBlocks ip then setIgnore (addCount b s) else addCount b s, cur))"
        using notPast False by simp
      ultimately show ?thesis by simp
    qed
  qed
qed

lemma reconcile_sorted_Some:
  assumes "\<not> isFileIgnore (Some ip)"
    and "sorted_wrt blockStartLE blocks" and "sorted_wrt stmtStartLE ss"
  shows "reconcile (Some ip) blocks ss = Inr (map (creditFirst ip blocks) ss)"
  using assms(2,3)
proof (induction ss arbitrary: blocks)
  case Nil
  then show ?case by simp
next
  case (Cons s ss)
  note rb = rangeBlocks_sorted [OF Cons.prems(1), of s "Some ip" blocks]
  from Cons.prems have sorted_ss: "sorted_wrt stmtStartLE ss"
    and later: "\<forall>t \<in> set ss. stmtStartLE s t"
    by auto
  show ?case
  proof (cases "List.find (overlaps (StmtExtent s)) blocks")
    case (Some b)
    with rb have "rangeBlocks (Some ip) blocks blocks s = Inr (creditFirst ip blocks s, blocks)"
      by (simp add: creditFirst_def)
    moreover have "reconcile (Some ip) blocks ss = Inr (map (creditFirst ip blocks) ss)"
      using Cons.IH [OF Cons.prems(1) sorted_ss] .
    ultimately show ?thesis
      using assms(1) by simp
  next
    case None
    with rb obtain cur' where c: "rangeBlocks (Some ip) blocks blocks s = Inr (s, cur')"
      and d: "cur' = blocks \<or>
                (\<exists>pre. blocks = pre @ cur' \<and> (\<forall>x \<in> set pre. beforeBeginning x (StmtExtent s)))"
      by auto
    have s_eq: "creditFirst ip blocks s = s"
      using None by (simp add: creditFirst_def)
    have "sorted_wrt blockStartLE cur' \<and> (\<forall>t \<in> set ss. creditFirst ip cur' t = creditFirst ip blocks t)"
      using d
    proof
      assume "cur' = blocks"
      then show ?thesis using Cons.prems(1) by simp
    next
      assume "\<exists>pre. blocks = pre @ cur' \<and> (\<forall>x \<in> set pre. beforeBeginning x (StmtExtent s))"
      then obtain pre where pre: "blocks = pre @ cur'"
        and bef: "\<forall>x \<in> set pre. beforeBeginning x (StmtExtent s)"
        by blast
      have "creditFirst ip cur' t = creditFirst ip blocks t" if "t \<in> set ss" for t
      proof -
        from that later have "stmtStartLE s t" by simp
        with bef have "\<forall>x \<in> set pre. \<not> overlaps (StmtExtent t) x"
          by (auto simp: overlaps_iff dest: beforeBeginning_mono)
        then have "List.find (overlaps (StmtExtent t)) (pre @ cur') = List.find (overlaps (StmtExtent t)) cur'"
          by (rule find_append_none)
        then show ?thesis
          by (simp add: creditFirst_def pre)
      qed
      moreover have "sorted_wrt blockStartLE cur'"
        using Cons.prems(1) pre by (simp add: sorted_wrt_append)
      ultimately show ?thesis by simp
    qed
    then have "reconcile (Some ip) cur' ss = Inr (map (creditFirst ip blocks) ss)"
      using Cons.IH [of cur'] sorted_ss by (simp cong: map_cong)
    with c s_eq show ?thesis
      using assms(1) by simp
  qed
qed



lemma reconcile_fileIgnore:
  "isFileIgnore ignoreProfile \<Longrightarrow> reconcile ignoreProfile blocks ss = Inr (map fileIgnored ss)"
  by (induction ss) simp_all


lemma exBlocks_sorted: "sorted_wrt blockStartLE exBlocks"
  by (simp add: exBlocks_def blockStartLE_def)

lemma exStmts_sorted: "sorted_wrt stmtStartLE exStmts"
  by (simp add: exStmts_def exStatement_def stmtStartLE_def)

lemma exStmts_reconciled:
  "reconcile (Some exIgnoreProfile) exBlocks exStmts =
     Inr [addCount (exBlocks ! 0) (exStmts ! 0), addCount (exBlocks ! 1) (exStmts ! 1),
          addCount (exBlocks ! 2) (exStmts ! 2)]"
  by (simp add: exBlocks_def exStmts_def exStatement_def exIgnoreProfile_def isFileIgnore_def
        pastEnd_def beforeBeginning_def)


text \<open>
  C1, as stated, fails. In the example the conditional overlaps the first two blocks,
  whose counts are 5 and 2; the loop leaves the inner loop after the first of them, and
  the statement's reached count is 5, not the sum 7.
\<close>

theorem reached_sum_of_overlapping_counterexample:
  "filter (overlaps (StmtExtent (exStmts ! 0))) exBlocks = [exBlocks ! 0, exBlocks ! 1]
   \<and> sum_list (map Count (filter (overlaps (StmtExtent (exStmts ! 0))) exBlocks)) = 7
   \<and> reconcile (Some exIgnoreProfile) exBlocks exStmts =
       Inr [addCount (exBlocks ! 0) (exStmts ! 0), addCount (exBlocks ! 1) (exStmts ! 1),
            addCount (exBlocks ! 2) (exStmts ! 2)]
   \<and> Reached (Statement (addCount (exBlocks ! 0) (exStmts ! 0))) = 5"
  by (simp add: exStmts_reconciled)
     (simp add: exBlocks_def exStmts_def exStatement_def overlaps_def posLess_def
        addCount_def int64_def)

text \<open>
  C1, amended. Let the blocks be sorted by start position and the statements by start
  position, let there be an ignore profile that is not a file-level one, let every
  statement come with reached count 0, as \<^verbatim>\<open>convertProfile\<close> makes them, and let
  the counts be Go ints. Then the loop returns, and for every statement the reached
  count is the count of the first block, in the order of the profile, whose span
  overlaps the statement's span, and 0 if no block overlaps it: one overlapping block
  is counted, the first, and the blocks after it are not added.
\<close>

theorem reached_count_of_first_overlapping:
  assumes "Type ip \<noteq> FILE_IGNORE"
    and "sorted_wrt blockStartLE blocks"
    and "sorted_wrt stmtStartLE ss"
    and "\<forall>s \<in> set ss. Reached (Statement s) = 0"
    and "\<forall>b \<in> set blocks. MinInt \<le> Count b \<and> Count b \<le> MaxInt"
  shows "\<exists>out. reconcile (Some ip) blocks ss = Inr out \<and> length out = length ss \<and>
           (\<forall>i < length ss.
              Reached (Statement (out ! i)) =
                (case List.find (overlaps (StmtExtent (ss ! i))) blocks of
                   None \<Rightarrow> 0
                 | Some b \<Rightarrow> Count b))"
proof -
  have nf: "\<not> isFileIgnore (Some ip)"
    using assms(1) by (simp add: isFileIgnore_def)
  have eq: "reconcile (Some ip) blocks ss = Inr (map (creditFirst ip blocks) ss)"
    using reconcile_sorted_Some [OF nf assms(2,3)] .
  have "Reached (Statement (creditFirst ip blocks s)) =
          (case List.find (overlaps (StmtExtent s)) blocks of None \<Rightarrow> 0 | Some b \<Rightarrow> Count b)"
    if "s \<in> set ss" for s
  proof (cases "List.find (overlaps (StmtExtent s)) blocks")
    case None
    then show ?thesis
      using that assms(4) by (simp add: creditFirst_def)
  next
    case (Some b)
    then have "b \<in> set blocks"
      by (auto simp: find_Some_iff)
    then have "int64 (Count b) = Count b"
      using assms(5) by (simp add: int64_id)
    then show ?thesis
      using Some that assms(4) by (simp add: creditFirst_def addCount_def setIgnore_def)
  qed
  then show ?thesis
    using eq by simp
qed

theorem reached_count_of_first_overlapping_witness:
  "\<exists>out. reconcile (Some exIgnoreProfile) exBlocks exStmts = Inr out \<and> length out = 3 \<and>
     Reached (Statement (out ! 0)) = 5 \<and> Reached (Statement (out ! 1)) = 2 \<and>
     Reached (Statement (out ! 2)) = 3"
proof -
  have h1: "Type exIgnoreProfile \<noteq> FILE_IGNORE"
    by (simp add: exIgnoreProfile_def)
  have h4: "\<forall>s \<in> set exStmts. Reached (Statement s) = 0"
    by (simp add: exStmts_def exStatement_def)
  have h5: "\<forall>b \<in> set exBlocks. MinInt \<le> Count b \<and> Count b \<le> MaxInt"
    by (simp add: exBlocks_def MinInt_def MaxInt_def)
  have f0: "List.find (overlaps (StmtExtent (exStmts ! 0))) exBlocks = Some (exBlocks ! 0)"
    and f1: "List.find (overlaps (StmtExtent (exStmts ! 1))) exBlocks = Some (exBlocks ! 1)"
    and f2: "List.find (overlaps (StmtExtent (exStmts ! 2))) exBlocks = Some (exBlocks ! 2)"
    by (simp_all add: exBlocks_def exStmts_def exStatement_def overlaps_def posLess_def)
  have len: "length exStmts = 3"
    by (simp add: exStmts_def)
  from reached_count_of_first_overlapping [OF h1 exBlocks_sorted exStmts_sorted h4 h5]
  obtain out where out: "reconcile (Some exIgnoreProfile) exBlocks exStmts = Inr out"
    "length out = length exStmts"
    and r: "\<forall>i < length exStmts.
              Reached (Statement (out ! i)) =
                (case List.find (overlaps (StmtExtent (exStmts ! i))) exBlocks of
                   None \<Rightarrow> 0
                 | Some b \<Rightarrow> Count b)"
    by blast
  from r len have "Reached (Statement (out ! 0)) = Count (exBlocks ! 0)"
    "Reached (Statement (out ! 1)) = Count (exBlocks ! 1)"
    "Reached (Statement (out ! 2)) = Count (exBlocks ! 2)"
    using f0 f1 f2 by auto
  then show ?thesis
    using out len by (simp add: exBlocks_def)
qed

text \<open>
  C3. File-ignore dominance. If the file carries a file-level ignore marker (there is
  an ignore profile and its type is \<open>FILE_IGNORE\<close>), the loop returns every statement
  with mode \<open>Ignore\<close> and reached count 1 and its other fields as they were, whatever
  the blocks are: the result is the same for any two block lists, no block is matched.
\<close>

theorem file_ignore_dominates:
  assumes "ignoreProfile = Some ip" and "Type ip = FILE_IGNORE"
  shows "reconcile ignoreProfile blocks ss = Inr (map fileIgnored ss)
         \<and> (\<forall>s \<in> set (map fileIgnored ss).
               Mode (Statement s) = Ignore \<and> Reached (Statement s) = 1)
         \<and> reconcile ignoreProfile blocks ss = reconcile ignoreProfile blocks' ss"
proof -
  have "isFileIgnore ignoreProfile"
    using assms by (simp add: isFileIgnore_def)
  then have "reconcile ignoreProfile bs ss = Inr (map fileIgnored ss)" for bs
    by (rule reconcile_fileIgnore)
  then show ?thesis
    by (simp add: fileIgnored_def)
qed

theorem file_ignore_dominates_witness:
  "map (\<lambda>s. (Mode (Statement s), Reached (Statement s)))
     (projr (reconcile (Some exFileIgnore) exBlocks exStmts))
   = [(Ignore, 1), (Ignore, 1), (Ignore, 1)]
   \<and> reconcile (Some exFileIgnore) exBlocks exStmts = reconcile (Some exFileIgnore) [] exStmts"
proof -
  have h: "Type exFileIgnore = FILE_IGNORE"
    by (simp add: exFileIgnore_def)
  from file_ignore_dominates [OF refl h, of exBlocks exStmts "[]"]
  have eq1: "reconcile (Some exFileIgnore) exBlocks exStmts = Inr (map fileIgnored exStmts)"
    and eq2: "reconcile (Some exFileIgnore) [] exStmts = Inr (map fileIgnored exStmts)"
    by auto
  show ?thesis
    by (simp add: eq1 eq2) (simp add: exStmts_def fileIgnored_def)
qed









subsection \<open>The statement extractor\<close>

lemma andThen_Inr_iff:
  "andThen x y = Inr out \<longleftrightarrow> (\<exists>a b. x = Inr a \<and> y = Inr b \<and> out = a @ b)"
  by (cases x; cases y) auto

lemma andThen_Nil_right: "andThen y (Inr []) = y"
  by (cases y) auto


lemma visitElse_if:
  "(case elseBlock (IfStmt p i b e) of Inl pn \<Rightarrow> Inl pn | Inr block \<Rightarrow> VisitStmt fset block) =
     andThen (Inr [stmtExtent fset (IfStmt p i b e)]) (VisitStmt fset (IfStmt p i b e))"
  by (simp add: andThen_Nil_right del: VisitStmt.simps(5))

lemma visitElse_block:
  "(case elseBlock (BlockStmt l xs r) of Inl pn \<Rightarrow> Inl pn | Inr block \<Rightarrow> VisitStmt fset block) =
     VisitStmt fset (BlockStmt l xs r)"
  by simp

lemma visitElse_other:
  "\<not> isIfOrBlock e \<Longrightarrow>
   (case elseBlock e of Inl pn \<Rightarrow> Inl pn | Inr block \<Rightarrow> VisitStmt fset block) =
     Inl UnexpectedNodeTypeInIf"
  by (cases e) simp_all

lemma lastEnd_default: "ss \<noteq> [] \<Longrightarrow> lastEnd c ss = lastEnd d ss"
  by (induction ss) auto

lemma lastEnd_Cons: "lastEnd c (s # ss) = lastEnd (stmtEnd s) ss"
  by (cases ss) (simp_all add: lastEnd_default [of _ c "stmtEnd s"])

lemma wellPositioned_span:
  shows "wellPositioned s \<Longrightarrow> stmtPos s < stmtEnd s"
    and "chained c ss \<Longrightarrow> c \<le> lastEnd c ss"
proof (induction s and c ss rule: wellPositioned_chained.induct)
  case (5 ifPos init body els)
  then show ?case by (cases els) auto
next
  case (13 c s ss)
  then have "c \<le> stmtPos s" "stmtPos s < stmtEnd s" "stmtEnd s \<le> lastEnd (stmtEnd s) ss"
    by auto
  then show ?case
    by (simp only: lastEnd_Cons)
qed auto

lemma startsWithin_Nil: "startsWithin fset a b []"
  by (simp add: startsWithin_def)

lemma startsWithin_mono:
  "startsWithin fset a b out \<Longrightarrow> a' \<le> a \<Longrightarrow> b \<le> b' \<Longrightarrow> startsWithin fset a' b' out"
  unfolding startsWithin_def by fastforce

lemma startsWithin_append:
  assumes "startsWithin fset a b x" and "startsWithin fset b' c y"
    and "a \<le> b" and "b \<le> b'" and "b' \<le> c"
  shows "startsWithin fset a c (x @ y)"
proof -
  from assms(1) obtain ps where ps: "map startOffset x = map (\<lambda>p. Offset (fset p)) ps"
    "sorted_wrt (<) ps" "\<forall>p \<in> set ps. a \<le> p \<and> p < b"
    by (auto simp: startsWithin_def)
  from assms(2) obtain qs where qs: "map startOffset y = map (\<lambda>p. Offset (fset p)) qs"
    "sorted_wrt (<) qs" "\<forall>p \<in> set qs. b' \<le> p \<and> p < c"
    by (auto simp: startsWithin_def)
  have "map startOffset (x @ y) = map (\<lambda>p. Offset (fset p)) (ps @ qs)"
    using ps(1) qs(1) by simp
  moreover have "sorted_wrt (<) (ps @ qs)"
    using ps(2,3) qs(2,3) assms(4) by (fastforce simp: sorted_wrt_append)
  moreover have "\<forall>p \<in> set (ps @ qs). a \<le> p \<and> p < c"
    using ps(3) qs(3) assms(3,4,5) by fastforce
  ultimately show ?thesis
    unfolding startsWithin_def by blast
qed

lemma startsWithin_Cons:
  assumes "startsWithin fset (at + 1) b out" and "a \<le> at" and "at < b"
    and "startOffset e = Offset (fset at)"
  shows "startsWithin fset a b (e # out)"
proof -
  from assms(1) obtain ps where ps: "map startOffset out = map (\<lambda>p. Offset (fset p)) ps"
    "sorted_wrt (<) ps" "\<forall>q \<in> set ps. at + 1 \<le> q \<and> q < b"
    by (auto simp: startsWithin_def)
  have "map startOffset (e # out) = map (\<lambda>p. Offset (fset p)) (at # ps)"
    using ps(1) assms(4) by simp
  moreover have "sorted_wrt (<) (at # ps)"
    using ps(2,3) by fastforce
  moreover have "\<forall>q \<in> set (at # ps). a \<le> q \<and> q < b"
    using ps(3) assms(2,3) by fastforce
  ultimately show ?thesis
    unfolding startsWithin_def by blast
qed

lemma startsWithin_sorted:
  assumes "startsWithin fset a b out" and "offsetsIncrease fset lo hi"
    and "lo \<le> a" and "b \<le> hi + 1"
  shows "sorted_wrt (<) (map startOffset out)"
proof -
  from assms(1) obtain ps where ps: "map startOffset out = map (\<lambda>p. Offset (fset p)) ps"
    "sorted_wrt (<) ps" "\<forall>p \<in> set ps. a \<le> p \<and> p < b"
    by (auto simp: startsWithin_def)
  have "sorted_wrt (\<lambda>p q. Offset (fset p) < Offset (fset q)) ps"
  proof (rule sorted_wrt_mono_rel [OF _ ps(2)])
    fix p q
    assume "p \<in> set ps" "q \<in> set ps" "p < q"
    with ps(3) assms(3,4) have "lo \<le> p \<and> p < q \<and> q \<le> hi"
      by fastforce
    with assms(2) show "Offset (fset p) < Offset (fset q)"
      unfolding offsetsIncrease_def by blast
  qed
  then show ?thesis
    by (simp add: ps(1) sorted_wrt_map)
qed


lemma optional_startsWithin:
  assumes "(case init of None \<Rightarrow> Inr [] | Some i \<Rightarrow> VisitStmt fset i) = Inr a"
    and "\<And>i. init = Some i \<Longrightarrow> startsWithin fset (stmtPos i + 1) (stmtEnd i) a"
    and "\<And>i. init = Some i \<Longrightarrow> lo \<le> stmtPos i + 1 \<and> stmtEnd i \<le> hi"
  shows "startsWithin fset lo hi a"
proof (cases init)
  case None
  with assms(1) show ?thesis by (simp add: startsWithin_Nil)
next
  case (Some i)
  with assms(2,3) show ?thesis
    by (blast intro: startsWithin_mono)
qed

lemma else_startsWithin:
  assumes "(case elseBlock e of Inl pn \<Rightarrow> Inl pn | Inr block \<Rightarrow> VisitStmt fset block) = Inr c"
    and "\<And>out. VisitStmt fset e = Inr out \<Longrightarrow> startsWithin fset (stmtPos e + 1) (stmtEnd e) out"
    and "wellPositioned e"
  shows "startsWithin fset (stmtPos e) (stmtEnd e) c"
proof -
  have shaped: "isIfOrBlock e"
  proof (rule ccontr)
    assume "\<not> isIfOrBlock e"
    then have "(case elseBlock e of Inl pn \<Rightarrow> Inl pn | Inr block \<Rightarrow> VisitStmt fset block) =
                 Inl UnexpectedNodeTypeInIf"
      by (rule visitElse_other)
    with assms(1) show False by simp
  qed
  then consider (cond) p i b el where "e = IfStmt p i b el"
    | (block) l xs r where "e = BlockStmt l xs r"
    by (cases e) simp_all
  then show ?thesis
  proof cases
    case cond
    have "(case elseBlock e of Inl pn \<Rightarrow> Inl pn | Inr block \<Rightarrow> VisitStmt fset block) =
            andThen (Inr [stmtExtent fset e]) (VisitStmt fset e)"
      unfolding cond by (rule visitElse_if)
    with assms(1) have "andThen (Inr [stmtExtent fset e]) (VisitStmt fset e) = Inr c"
      by simp
    then obtain out where out: "VisitStmt fset e = Inr out" "c = stmtExtent fset e # out"
      by (auto simp: andThen_Inr_iff)
    have "startsWithin fset (stmtPos e) (stmtEnd e) (stmtExtent fset e # out)"
    proof (rule startsWithin_Cons [where at = "stmtPos e"])
      show "startsWithin fset (stmtPos e + 1) (stmtEnd e) out"
        using assms(2) out(1) .
      show "stmtPos e < stmtEnd e"
        using assms(3) by (rule wellPositioned_span)
      show "startOffset (stmtExtent fset e) = Offset (fset (stmtPos e))"
        by (simp add: stmtExtent_def Let_def)
      show "stmtPos e \<le> stmtPos e"
        by simp
    qed
    then show ?thesis
      by (simp only: out(2))
  next
    case block
    have "(case elseBlock e of Inl pn \<Rightarrow> Inl pn | Inr block \<Rightarrow> VisitStmt fset block) =
            VisitStmt fset e"
      unfolding block by (rule visitElse_block)
    with assms(1) have "VisitStmt fset e = Inr c"
      by simp
    then have "startsWithin fset (stmtPos e + 1) (stmtEnd e) c"
      by (rule assms(2))
    then show ?thesis
      by (rule startsWithin_mono) simp_all
  qed
qed

lemma VisitStmt_startsWithin:
  shows "wellPositioned s \<Longrightarrow> VisitStmt fset s = Inr out \<Longrightarrow>
           startsWithin fset (stmtPos s + 1) (stmtEnd s) out"
    and "chained c ss \<Longrightarrow> visitStatements fset ss = Inr out \<Longrightarrow>
           startsWithin fset c (lastEnd c ss) out"
proof (induction s and c ss arbitrary: out and out rule: wellPositioned_chained.induct)
  case (1 lbrace list rbrace)
  then have "startsWithin fset (lbrace + 1) (lastEnd (lbrace + 1) list) out"
    by simp
  then show ?case
    using "1.prems"(1) by (auto intro: startsWithin_mono)
next
  case (2 casePos colon body)
  then have "startsWithin fset (colon + 1) (lastEnd (colon + 1) body) out"
    by simp
  then show ?case
    using "2.prems"(1) by (auto intro: startsWithin_mono)
next
  case (3 casePos colon body)
  then have "startsWithin fset (colon + 1) (lastEnd (colon + 1) body) out"
    by simp
  then show ?case
    using "3.prems"(1) by (auto intro: startsWithin_mono)
next
  case (4 f init post body)
  from "4.prems"(2) obtain a b c where
    a: "(case init of None \<Rightarrow> Inr [] | Some i \<Rightarrow> VisitStmt fset i) = Inr a"
    and b: "(case post of None \<Rightarrow> Inr [] | Some p \<Rightarrow> VisitStmt fset p) = Inr b"
    and c: "VisitStmt fset body = Inr c" and out: "out = a @ b @ c"
    by (auto simp: andThen_Inr_iff)
  define m where "m = (case init of None \<Rightarrow> f + 1 | Some i \<Rightarrow> stmtEnd i)"
  have m: "f + 1 \<le> m" "m \<le> stmtPos body"
    using "4.prems"(1) wellPositioned_span(1)
    by (auto simp: m_def split: option.splits dest: wellPositioned_span(1))
  have sa: "startsWithin fset (f + 1) m a"
    using a
  proof (rule optional_startsWithin)
    fix i assume i: "init = Some i"
    with a "4.prems"(1) "4.IH"(2) show "startsWithin fset (stmtPos i + 1) (stmtEnd i) a"
      by simp
    from i "4.prems"(1) show "f + 1 \<le> stmtPos i + 1 \<and> stmtEnd i \<le> m"
      by (simp add: m_def)
  qed
  have sb: "startsWithin fset m (stmtPos body) b"
    using b
  proof (rule optional_startsWithin)
    fix p assume p: "post = Some p"
    with b "4.prems"(1) "4.IH"(3) show "startsWithin fset (stmtPos p + 1) (stmtEnd p) b"
      by simp
    from p "4.prems"(1) show "m \<le> stmtPos p + 1 \<and> stmtEnd p \<le> stmtPos body"
      by (auto simp: m_def split: option.splits)
  qed
  have sc: "startsWithin fset (stmtPos body + 1) (stmtEnd body) c"
    using c "4.prems"(1) "4.IH"(1) by simp
  have span: "stmtPos body < stmtEnd body"
    using "4.prems"(1) by (auto dest: wellPositioned_span(1))
  have sbc: "startsWithin fset m (stmtEnd body) (b @ c)"
    by (rule startsWithin_append [OF sb sc]) (use m span in auto)
  have "startsWithin fset (f + 1) (stmtEnd body) (a @ b @ c)"
    by (rule startsWithin_append [OF sa sbc]) (use m span in auto)
  then show ?case
    by (simp add: out)
next
  case (5 ifPos init body els)
  from "5.prems"(2) obtain a b c where
    a: "(case init of None \<Rightarrow> Inr [] | Some i \<Rightarrow> VisitStmt fset i) = Inr a"
    and b: "VisitStmt fset body = Inr b"
    and c: "(case els of None \<Rightarrow> Inr []
             | Some e \<Rightarrow> (case elseBlock e of Inl pn \<Rightarrow> Inl pn
                          | Inr block \<Rightarrow> VisitStmt fset block)) = Inr c"
    and out: "out = a @ b @ c"
    by (auto simp: andThen_Inr_iff)
  have span: "stmtPos body < stmtEnd body"
    using "5.prems"(1) by (auto dest: wellPositioned_span(1))
  have endle: "stmtEnd body \<le> stmtEnd (IfStmt ifPos init body els)"
    using "5.prems"(1) by (auto split: option.splits dest: wellPositioned_span(1))
  have sa: "startsWithin fset (ifPos + 1) (stmtPos body) a"
    using a
  proof (rule optional_startsWithin)
    fix i assume i: "init = Some i"
    with a "5.prems"(1) "5.IH"(2) show "startsWithin fset (stmtPos i + 1) (stmtEnd i) a"
      by simp
    from i "5.prems"(1) show "ifPos + 1 \<le> stmtPos i + 1 \<and> stmtEnd i \<le> stmtPos body"
      by simp
  qed
  have sb: "startsWithin fset (stmtPos body + 1) (stmtEnd body) b"
    using b "5.prems"(1) "5.IH"(1) by simp
  have sc: "startsWithin fset (stmtEnd body) (stmtEnd (IfStmt ifPos init body els)) c"
  proof (cases els)
    case None
    with c show ?thesis by (simp add: startsWithin_Nil)
  next
    case (Some e)
    with "5.prems"(1) have wpe: "wellPositioned e" and le: "stmtEnd body \<le> stmtPos e"
      by auto
    from Some c have "(case elseBlock e of Inl pn \<Rightarrow> Inl pn
                          | Inr block \<Rightarrow> VisitStmt fset block) = Inr c"
      by simp
    then have "startsWithin fset (stmtPos e) (stmtEnd e) c"
      using "5.IH"(3) [OF Some wpe] wpe by (rule else_startsWithin)
    then show ?thesis
      using le Some by (auto intro: startsWithin_mono)
  qed
  have sbc: "startsWithin fset (stmtPos body + 1) (stmtEnd (IfStmt ifPos init body els)) (b @ c)"
    by (rule startsWithin_append [OF sb sc]) (use span endle in auto)
  have "startsWithin fset (ifPos + 1) (stmtEnd (IfStmt ifPos init body els)) (a @ b @ c)"
    by (rule startsWithin_append [OF sa sbc]) (use "5.prems"(1) span endle in auto)
  then show ?case
    by (simp add: out)
next
  case (6 label s)
  then have "startsWithin fset (stmtPos s + 1) (stmtEnd s) out"
    by simp
  then show ?case
    using "6.prems"(1) by (auto intro: startsWithin_mono)
next
  case (7 f body)
  then have "startsWithin fset (stmtPos body + 1) (stmtEnd body) out"
    by simp
  then show ?case
    using "7.prems"(1) by (auto intro: startsWithin_mono)
next
  case (8 select body)
  then have "startsWithin fset (stmtPos body + 1) (stmtEnd body) out"
    by simp
  then show ?case
    using "8.prems"(1) by (auto intro: startsWithin_mono)
next
  case (9 switch init body)
  from "9.prems"(2) obtain a b where
    a: "(case init of None \<Rightarrow> Inr [] | Some i \<Rightarrow> VisitStmt fset i) = Inr a"
    and b: "VisitStmt fset body = Inr b" and out: "out = a @ b"
    by (auto simp: andThen_Inr_iff)
  have span: "stmtPos body < stmtEnd body"
    using "9.prems"(1) by (auto dest: wellPositioned_span(1))
  have sa: "startsWithin fset (switch + 1) (stmtPos body) a"
    using a
  proof (rule optional_startsWithin)
    fix i assume i: "init = Some i"
    with a "9.prems"(1) "9.IH"(2) show "startsWithin fset (stmtPos i + 1) (stmtEnd i) a"
      by simp
    from i "9.prems"(1) show "switch + 1 \<le> stmtPos i + 1 \<and> stmtEnd i \<le> stmtPos body"
      by simp
  qed
  have sb: "startsWithin fset (stmtPos body + 1) (stmtEnd body) b"
    using b "9.prems"(1) "9.IH"(1) by simp
  have "startsWithin fset (switch + 1) (stmtEnd body) (a @ b)"
    by (rule startsWithin_append [OF sa sb]) (use "9.prems"(1) span in auto)
  then show ?case
    by (simp add: out)
next
  case (10 switch init assign body)
  from "10.prems"(2) obtain a b c where
    a: "(case init of None \<Rightarrow> Inr [] | Some i \<Rightarrow> VisitStmt fset i) = Inr a"
    and b: "VisitStmt fset assign = Inr b"
    and c: "VisitStmt fset body = Inr c" and out: "out = a @ b @ c"
    by (auto simp: andThen_Inr_iff)
  have span: "stmtPos body < stmtEnd body" "stmtPos assign < stmtEnd assign"
    using "10.prems"(1) by (auto dest: wellPositioned_span(1))
  have sa: "startsWithin fset (switch + 1) (stmtPos assign) a"
    using a
  proof (rule optional_startsWithin)
    fix i assume i: "init = Some i"
    with a "10.prems"(1) "10.IH"(3) show "startsWithin fset (stmtPos i + 1) (stmtEnd i) a"
      by simp
    from i "10.prems"(1) show "switch + 1 \<le> stmtPos i + 1 \<and> stmtEnd i \<le> stmtPos assign"
      by simp
  qed
  have sb: "startsWithin fset (stmtPos assign + 1) (stmtEnd assign) b"
    using b "10.prems"(1) "10.IH"(1) by simp
  have sc: "startsWithin fset (stmtPos body + 1) (stmtEnd body) c"
    using c "10.prems"(1) "10.IH"(2) by simp
  have sbc: "startsWithin fset (stmtPos assign + 1) (stmtEnd body) (b @ c)"
    by (rule startsWithin_append [OF sb sc]) (use "10.prems"(1) span in auto)
  have "startsWithin fset (switch + 1) (stmtEnd body) (a @ b @ c)"
    by (rule startsWithin_append [OF sa sbc]) (use "10.prems"(1) span in auto)
  then show ?case
    by (simp add: out)
next
  case (11 pos "end")
  then show ?case by (simp add: startsWithin_Nil)
next
  case (12 c)
  then show ?case by (simp add: startsWithin_Nil)
next
  case (13 c s ss)
  from "13.prems"(2) obtain a b where
    a: "VisitStmt fset s = Inr a" and b: "visitStatements fset ss = Inr b"
    and out: "out = (if isListNode s then [] else [stmtExtent fset s]) @ a @ b"
    by (auto simp: andThen_Inr_iff)
  have span: "stmtPos s < stmtEnd s"
    using "13.prems"(1) by (auto dest: wellPositioned_span(1))
  have le: "stmtEnd s \<le> lastEnd (stmtEnd s) ss"
    using "13.prems"(1) by (auto dest: wellPositioned_span(2))
  have sa: "startsWithin fset (stmtPos s + 1) (stmtEnd s) a"
    using a "13.prems"(1) "13.IH"(1) by simp
  have sb: "startsWithin fset (stmtEnd s) (lastEnd (stmtEnd s) ss) b"
    using b "13.prems"(1) "13.IH"(2) by simp
  have sab: "startsWithin fset (stmtPos s + 1) (lastEnd (stmtEnd s) ss) (a @ b)"
    by (rule startsWithin_append [OF sa sb]) (use span le in auto)
  have "startsWithin fset c (lastEnd (stmtEnd s) ss) out"
  proof (cases "isListNode s")
    case True
    with sab "13.prems"(1) show ?thesis
      by (auto simp: out intro: startsWithin_mono)
  next
    case False
    have "startsWithin fset c (lastEnd (stmtEnd s) ss) (stmtExtent fset s # a @ b)"
    proof (rule startsWithin_Cons [where at = "stmtPos s"])
      show "startsWithin fset (stmtPos s + 1) (lastEnd (stmtEnd s) ss) (a @ b)"
        by (rule sab)
      show "c \<le> stmtPos s"
        using "13.prems"(1) by simp
      show "stmtPos s < lastEnd (stmtEnd s) ss"
        using span le by simp
      show "startOffset (stmtExtent fset s) = Offset (fset (stmtPos s))"
        by (simp add: stmtExtent_def Let_def)
    qed
    with False show ?thesis
      by (simp add: out)
  qed
  then show ?case
    by (simp only: lastEnd_Cons)
qed


lemma andThen_Inl_iff:
  "andThen x y = Inl p \<longleftrightarrow> x = Inl p \<or> (\<exists>a. x = Inr a \<and> y = Inl p)"
  by (cases x; cases y) auto

lemma andThen_returns_iff:
  "(\<exists>out. andThen x y = Inr out) \<longleftrightarrow> (\<exists>a. x = Inr a) \<and> (\<exists>b. y = Inr b)"
  by (cases x; cases y) auto

lemma visitElse_returns_iff:
  "(\<exists>c. (case elseBlock e of Inl pn \<Rightarrow> Inl pn | Inr block \<Rightarrow> VisitStmt fset block) = Inr c)
     \<longleftrightarrow> isIfOrBlock e \<and> (\<exists>out. VisitStmt fset e = Inr out)"
proof (cases "isIfOrBlock e")
  case False
  then show ?thesis
    by (simp add: visitElse_other)
next
  case True
  then consider (cond) p i b el where "e = IfStmt p i b el"
    | (block) l xs r where "e = BlockStmt l xs r"
    by (cases e) simp_all
  then show ?thesis
  proof cases
    case cond
    have "(case elseBlock e of Inl pn \<Rightarrow> Inl pn | Inr block \<Rightarrow> VisitStmt fset block) =
            andThen (Inr [stmtExtent fset e]) (VisitStmt fset e)"
      unfolding cond by (rule visitElse_if)
    then show ?thesis
      using True by (simp add: andThen_returns_iff)
  next
    case block
    have "(case elseBlock e of Inl pn \<Rightarrow> Inl pn | Inr block \<Rightarrow> VisitStmt fset block) =
            VisitStmt fset e"
      unfolding block by (rule visitElse_block)
    then show ?thesis
      using True by simp
  qed
qed

lemma visitStatements_returns_iff:
  assumes "\<And>s. s \<in> set ss \<Longrightarrow> (\<exists>out. VisitStmt fset s = Inr out) \<longleftrightarrow> parserShaped s"
  shows "(\<exists>out. visitStatements fset ss = Inr out) \<longleftrightarrow> (\<forall>s \<in> set ss. parserShaped s)"
  using assms
proof (induction ss)
  case Nil
  then show ?case by simp
next
  case (Cons s ss)
  have "(\<exists>out. visitStatements fset ss = Inr out) \<longleftrightarrow> (\<forall>s \<in> set ss. parserShaped s)"
    using Cons by simp
  moreover have "(\<exists>out. VisitStmt fset s = Inr out) \<longleftrightarrow> parserShaped s"
    using Cons.prems by simp
  ultimately show ?case
    by (simp add: andThen_returns_iff)
qed

lemma optional_returns_iff:
  assumes "\<And>i. init = Some i \<Longrightarrow> (\<exists>out. VisitStmt fset i = Inr out) \<longleftrightarrow> parserShaped i"
  shows "(\<exists>a. (case init of None \<Rightarrow> Inr [] | Some i \<Rightarrow> VisitStmt fset i) = Inr a)
           \<longleftrightarrow> (case init of None \<Rightarrow> True | Some i \<Rightarrow> parserShaped i)"
  using assms by (cases init) simp_all

lemma VisitStmt_returns_iff:
  "(\<exists>out. VisitStmt fset s = Inr out) \<longleftrightarrow> parserShaped s"
proof (induction s rule: parserShaped.induct)
  case (1 lbrace list rbrace)
  then show ?case
    using visitStatements_returns_iff [of list fset] by simp
next
  case (2 casePos colon body)
  then show ?case
    using visitStatements_returns_iff [of body fset] by simp
next
  case (3 casePos colon body)
  then show ?case
    using visitStatements_returns_iff [of body fset] by simp
next
  case (4 f init post body)
  then show ?case
    using optional_returns_iff [of init fset] optional_returns_iff [of post fset]
    by (simp add: andThen_returns_iff)
next
  case (5 ifPos init body els)
  have "(\<exists>c. (case els of None \<Rightarrow> Inr []
             | Some e \<Rightarrow> (case elseBlock e of Inl pn \<Rightarrow> Inl pn
                          | Inr block \<Rightarrow> VisitStmt fset block)) = Inr c)
        \<longleftrightarrow> (case els of None \<Rightarrow> True | Some e \<Rightarrow> isIfOrBlock e \<and> parserShaped e)"
  proof (cases els)
    case None
    then show ?thesis by simp
  next
    case (Some e)
    then show ?thesis
      using "5.IH"(3) [of e] visitElse_returns_iff [where e = e and fset = fset] by simp
  qed
  then show ?case
    using 5 optional_returns_iff [of init fset]
    by (simp add: andThen_returns_iff)
next
  case (9 switch init body)
  then show ?case
    using optional_returns_iff [of init fset]
    by (simp add: andThen_returns_iff)
next
  case (10 switch init assign body)
  then show ?case
    using optional_returns_iff [of init fset]
    by (simp add: andThen_returns_iff)
qed simp_all

lemma VisitStmt_panic:
  shows "VisitStmt fset s = Inl p \<Longrightarrow> p = UnexpectedNodeTypeInIf"
    and "visitStatements fset ss = Inl p \<Longrightarrow> p = UnexpectedNodeTypeInIf"
proof (induction fset s and fset ss rule: VisitStmt_visitStatements.induct)
  case (5 fset ifPos init body els)
  from "5.prems" consider
    (a) "(case init of None \<Rightarrow> Inr [] | Some i \<Rightarrow> VisitStmt fset i) = Inl p"
    | (b) "VisitStmt fset body = Inl p"
    | (c) "(case els of None \<Rightarrow> Inr []
             | Some e \<Rightarrow> (case elseBlock e of Inl pn \<Rightarrow> Inl pn
                          | Inr block \<Rightarrow> VisitStmt fset block)) = Inl p"
    by (auto simp: andThen_Inl_iff)
  then show ?case
  proof cases
    case a
    then show ?thesis using "5.IH"(1) by (cases init) simp_all
  next
    case b
    then show ?thesis using "5.IH"(2) by simp
  next
    case c
    then obtain e where e: "els = Some e" by (cases els) simp_all
    show ?thesis
    proof (cases "elseBlock e")
      case (Inl pn)
      then have "pn = UnexpectedNodeTypeInIf"
        by (cases e) simp_all
      with c e Inl show ?thesis by simp
    next
      case (Inr block)
      with c e have "VisitStmt fset block = Inl p" by simp
      then show ?thesis using "5.IH"(3) [OF e Inr] by simp
    qed
  qed
qed (auto simp: andThen_Inl_iff split: option.splits)


lemma exIfBody_extents:
  "VisitStmt exFset exIfBody =
     Inr [\<lparr>startOffset = 11, startLine = 1, startCol = 12,
           endOffset = 41, endLine = 1, endCol = 42\<rparr>,
          \<lparr>startOffset = 18, startLine = 1, startCol = 19,
           endOffset = 21, endLine = 1, endCol = 22\<rparr>,
          \<lparr>startOffset = 29, startLine = 1, startCol = 30,
           endOffset = 41, endLine = 1, endCol = 42\<rparr>,
          \<lparr>startOffset = 36, startLine = 1, startCol = 37,
           endOffset = 39, endLine = 1, endCol = 40\<rparr>]"
  by (simp add: exIfBody_def exElseIf_def exFset_def stmtExtent_def backupToElse_def)

lemma exIfElseBody_extents:
  "VisitStmt exFset exIfElseBody =
     Inr [\<lparr>startOffset = 11, startLine = 1, startCol = 12,
           endOffset = 36, endLine = 1, endCol = 37\<rparr>,
          \<lparr>startOffset = 18, startLine = 1, startCol = 19,
           endOffset = 21, endLine = 1, endCol = 22\<rparr>,
          \<lparr>startOffset = 31, startLine = 1, startCol = 32,
           endOffset = 34, endLine = 1, endCol = 35\<rparr>]"
  by (simp add: exIfElseBody_def exFset_def stmtExtent_def backupToElse_def)





text \<open>
  C5, as stated, fails. For \<^verbatim>\<open>func f() { if a { x() } else if b { y() } }\<close> the
  \<^verbatim>\<open>else\<close> keyword is at offset 24 and the nested conditional at offset 29. The
  extents recorded start at the offsets 11, 18, 29 and 36: the one for the else-if
  branch starts at the nested conditional's own position, and none starts at the
  \<^verbatim>\<open>else\<close>. For \<^verbatim>\<open>func f() { if a { x() } else { y() } }\<close> the extents start at
  11, 18 and 31: none is recorded for the else block, shifted or not.
\<close>

theorem else_extent_counterexample:
  "map startOffset (projr (VisitStmt exFset exIfBody)) = [11, 18, 29, 36]
   \<and> \<not> isl (VisitStmt exFset exIfBody)
   \<and> Offset (exFset (stmtPos exElseIf)) = 29
   \<and> Offset (exFset (stmtPos exElseIf - backupToElse)) = 24
   \<and> map startOffset (projr (VisitStmt exFset exIfElseBody)) = [11, 18, 31]
   \<and> \<not> isl (VisitStmt exFset exIfElseBody)"
  by (simp add: exIfBody_extents exIfElseBody_extents)
     (simp add: exElseIf_def exFset_def backupToElse_def)

text \<open>
  C5, amended. For an else branch that is a conditional, \<^verbatim>\<open>VisitStmt\<close> makes a block
  node whose \<open>Lbrace\<close> is the nested conditional's position less the length of
  \<^verbatim>\<open>"else "\<close>, whose only statement is the nested conditional and whose \<open>Rbrace\<close> is
  the nested conditional's end; for an else branch that is a block it moves the block's
  \<open>Lbrace\<close> back by the same 5. Neither block is recorded as a statement extent. The
  extent recorded for an else-if branch is that of the nested conditional itself,
  starting at the nested conditional's own position, followed by what its visit
  records; for a block, what is recorded are the statements of the block, whatever its
  \<open>Lbrace\<close>.
\<close>

theorem else_block_backed_up_not_recorded:
  "elseBlock (IfStmt p i b e) =
     Inr (BlockStmt (p - 5) [IfStmt p i b e] (stmtEnd (IfStmt p i b e)))
   \<and> elseBlock (BlockStmt l xs r) = Inr (BlockStmt (l - 5) xs r)
   \<and> VisitStmt fset (IfStmt p0 i0 b0 (Some (IfStmt p i b e))) =
       andThen (case i0 of None \<Rightarrow> Inr [] | Some s \<Rightarrow> VisitStmt fset s)
      (andThen (VisitStmt fset b0)
      (andThen (Inr [stmtExtent fset (IfStmt p i b e)]) (VisitStmt fset (IfStmt p i b e))))
   \<and> startOffset (stmtExtent fset (IfStmt p i b e)) = Offset (fset p)
   \<and> VisitStmt fset (IfStmt p0 i0 b0 (Some (BlockStmt l xs r))) =
       andThen (case i0 of None \<Rightarrow> Inr [] | Some s \<Rightarrow> VisitStmt fset s)
      (andThen (VisitStmt fset b0) (visitStatements fset xs))
   \<and> VisitStmt fset (BlockStmt (l - 5) xs r) = VisitStmt fset (BlockStmt l xs r)"
proof -
  have "VisitStmt fset (IfStmt p0 i0 b0 (Some (IfStmt p i b e))) =
       andThen (case i0 of None \<Rightarrow> Inr [] | Some s \<Rightarrow> VisitStmt fset s)
      (andThen (VisitStmt fset b0)
      (andThen (Inr [stmtExtent fset (IfStmt p i b e)]) (VisitStmt fset (IfStmt p i b e))))"
    using visitElse_if [where fset = fset and p = p and i = i and b = b and e = e]
    by (simp del: elseBlock.simps VisitStmt.simps add: VisitStmt.simps(5) [of fset p0])
  then show ?thesis
    by (simp add: backupToElse_def stmtExtent_def Let_def del: VisitStmt.simps(5))
       (simp add: backupToElse_def)
qed

theorem else_block_backed_up_not_recorded_witness:
  "elseBlock exElseIf = Inr (BlockStmt 25 [exElseIf] 42)
   \<and> startOffset (stmtExtent exFset exElseIf) = 29"
  using else_block_backed_up_not_recorded
          [of 30 None "BlockStmt 35 [OtherStmt 37 40] 41" None 0 "[]" 0 exFset 0 None
              "OtherStmt 0 0"]
  by (simp add: exElseIf_def exFset_def)

text \<open>
  C6. Statement monotonicity. For a function body whose positions are those of a source
  text and whose else branches are as the parser makes them, and a file set under which
  later positions of the file have larger offsets, the extractor returns, and the
  statement extents it gives the function are strictly ordered by start offset: each
  statement recorded starts after the one recorded before it, in the order of the text.
\<close>

theorem statement_extents_strictly_ordered:
  assumes "wellPositioned body" and "parserShaped body"
    and "offsetsIncrease fset lo hi" and "lo \<le> stmtPos body" and "stmtEnd body \<le> hi"
  shows "\<exists>out. VisitStmt fset body = Inr out \<and> sorted_wrt (<) (map startOffset out) \<and>
           (\<exists>fe. visitBody fset pos n (Some body) = Inr [fe] \<and> stmts fe = out)"
proof -
  from assms(2) obtain out where out: "VisitStmt fset body = Inr out"
    using VisitStmt_returns_iff by blast
  with assms(1) have "startsWithin fset (stmtPos body + 1) (stmtEnd body) out"
    by (rule VisitStmt_startsWithin(1))
  then have "sorted_wrt (<) (map startOffset out)"
    using assms(3) by (rule startsWithin_sorted) (use assms(4,5) in auto)
  moreover have "\<exists>fe. visitBody fset pos n (Some body) = Inr [fe] \<and> stmts fe = out"
    using out by (simp add: visitBody_def Let_def)
  ultimately show ?thesis
    using out by blast
qed

theorem statement_extents_strictly_ordered_witness:
  "wellPositioned exIfBody \<and> parserShaped exIfBody \<and> offsetsIncrease exFset 1 44
   \<and> sorted_wrt (<) (map startOffset (projr (VisitStmt exFset exIfBody)))
   \<and> map startOffset (projr (VisitStmt exFset exIfBody)) = [11, 18, 29, 36]"
proof -
  have w: "wellPositioned exIfBody"
    by (simp add: exIfBody_def exElseIf_def)
  have s: "parserShaped exIfBody"
    by (simp add: exIfBody_def exElseIf_def)
  have m: "offsetsIncrease exFset 1 44"
    by (simp add: offsetsIncrease_def exFset_def)
  have lo: "1 \<le> stmtPos exIfBody" and hi: "stmtEnd exIfBody \<le> 44"
    by (simp_all add: exIfBody_def)
  from statement_extents_strictly_ordered [OF w s m lo hi, of 1 "''f''"]
  obtain out where "VisitStmt exFset exIfBody = Inr out"
    and "sorted_wrt (<) (map startOffset out)"
    by blast
  then have "sorted_wrt (<) (map startOffset (projr (VisitStmt exFset exIfBody)))"
    by simp
  then show ?thesis
    using w s m by (simp add: exIfBody_extents)
qed

text \<open>
  The panic of the else branch. On a tree in which every else branch is a conditional
  or a block \<^verbatim>\<open>VisitStmt\<close> returns; on any other tree it panics with
  \<^verbatim>\<open>panic("unexpected node type in if")\<close>, and that panic is the only one it has.
\<close>

lemma VisitStmt_returns_or_panics:
  "(parserShaped s \<longrightarrow> (\<exists>out. VisitStmt fset s = Inr out))
   \<and> (\<not> parserShaped s \<longrightarrow> VisitStmt fset s = Inl UnexpectedNodeTypeInIf)"
proof (cases "VisitStmt fset s")
  case (Inl p)
  then have "p = UnexpectedNodeTypeInIf"
    by (rule VisitStmt_panic(1))
  with Inl show ?thesis
    using VisitStmt_returns_iff [of fset s] by simp
next
  case (Inr out)
  then show ?thesis
    using VisitStmt_returns_iff [of fset s] by auto
qed

subsection \<open>Errors of the parser\<close>

lemma convertProfile_errors:
  assumes "convertProfile env parser p change = Returns (Some e, parser')"
  shows "(\<exists>err. e = ErrorfW ''find file'' err) \<or> e = Errorf ''parse ignore profile'' \<or>
         (\<exists>err. e = ErrorfW ''find Functions'' err)"
  using assms
  by (auto simp: convertProfile_def Let_def
           split: sum.splits prod.splits outcome.splits option.splits)

lemma convertProfiles_errors:
  assumes "convertProfiles env parser ps changes = Returns (Some e, parser')"
  shows "\<exists>err. e = ErrorfW ''covert cover profile'' err"
  using assms
  by (induction ps arbitrary: parser)
     (auto split: outcome.splits option.splits prod.splits)

lemma parseFiles_no_partial_result:
  assumes "parseFiles env parser files changes result = Returns ((r, e), parser')"
  shows "(r = None \<longleftrightarrow> e \<noteq> None) \<and>
         (\<forall>err. e = Some err \<longrightarrow>
            (\<exists>err'. err = ErrorfW ''parse cover profile'' err' \<or>
                    err = ErrorfW ''covert cover profile'' err'))"
  using assms
proof (induction files arbitrary: parser result)
  case Nil
  then show ?case by auto
next
  case (Cons f files)
  show ?case
  proof (cases "ParseProfiles env f")
    case (Inl err)
    with Cons.prems show ?thesis by auto
  next
    case (Inr profiles)
    show ?thesis
    proof (cases "convertProfiles env parser profiles changes")
      case (Returns x)
      obtain eo parser1 where x: "x = (eo, parser1)" by (cases x)
      show ?thesis
      proof (cases eo)
        case None
        with Cons.prems Inr Returns x
        have "parseFiles env parser1 files changes
                (foldl (AddPackage env) result (map snd (packages parser1)))
              = Returns ((r, e), parser')"
          by simp
        then show ?thesis by (rule Cons.IH)
      next
        case (Some err)
        with Returns x obtain err' where "err = ErrorfW ''covert cover profile'' err'"
          using convertProfiles_errors by blast
        with Cons.prems Inr Returns x Some show ?thesis by auto
      qed
    next
      case (Panics p)
      with Cons.prems Inr show ?thesis by simp
    next
      case Diverges
      with Cons.prems Inr show ?thesis by simp
    qed
  qed
qed

lemma ParseProfiles_error_carried:
  assumes "ParseProfiles env f = Inl err"
  shows "returned (parseFiles env parser (f # files) changes result) =
           Returns (None, Some (ErrorfW ''parse cover profile'' err))
         \<and> carries (ErrorfW ''parse cover profile'' err) err"
  using assms by (cases err) simp_all

lemma carries_refl: "carries e e"
  by (cases e) simp_all

lemma findFile_error_carried:
  assumes "findFile env cache path = Inl e"
  shows "\<exists>tag err. e = ErrorfW tag err \<and> carries e err"
  using assms
  by (auto simp: findFile_def Let_def carries_refl split: prod.splits option.splits sum.splits)

lemma convertProfile_findFile_error:
  assumes "findFile env (packagesCache parser) (Profile.FileName p) = Inl e"
  shows "returned (convertProfile env parser p change) = Returns (Some (ErrorfW ''find file'' e))
         \<and> carries (ErrorfW ''find file'' e) e"
  using assms by (simp add: convertProfile_def carries_refl)

lemma convertProfile_findFuncs_error:
  assumes "findFile env (packagesCache parser) (Profile.FileName p) = Inr ((file, pkgpath), cache)"
    and "ParseIgnoreProfiles env file p = Inr ignoreProfile"
    and "ParseFile env file = Inl err"
  shows "returned (convertProfile env parser p change) =
           Returns (Some (ErrorfW ''find Functions'' err))
         \<and> carries (ErrorfW ''find Functions'' err) err"
  using assms by (simp add: convertProfile_def findFuncs_def Let_def carries_refl)

lemma convertProfile_annotation_error:
  assumes "findFile env (packagesCache parser) (Profile.FileName p) = Inr ((file, pkgpath), cache)"
    and "ParseIgnoreProfiles env file p = Inl err"
  shows "returned (convertProfile env parser p change) =
           Returns (Some (Errorf ''parse ignore profile''))
         \<and> (carries (Errorf ''parse ignore profile'') err \<longleftrightarrow>
              err = Errorf ''parse ignore profile'')"
  using assms by (auto simp: convertProfile_def Let_def)

lemma exEnv_findFile:
  "findFile exEnv Map.empty ''m/pkg/a.go'' =
     Inr ((''/src/m/pkg/a.go'', ''m/pkg''),
          [''m/pkg'' \<mapsto> \<lparr>Dir = ''/src/m/pkg'', ImportPath = ''m/pkg''\<rparr>])"
  by (simp add: findFile_def exEnv_def Split_def TrimSuffix_def HasSuffix_def Let_def)

text \<open>
  C7. Fatal propagation. \<^verbatim>\<open>Parse\<close> returns either the packages and no error, or no
  packages and an error with a stage tag (\<open>parseFiles_no_partial_result\<close>). For the
  stages of profile decoding, file resolution and source parsing, the error returned
  wraps the error of the stage with \<^verbatim>\<open>%w\<close> and still carries it
  (\<open>ParseProfiles_error_carried\<close>, \<open>convertProfile_findFile_error\<close>,
  \<open>convertProfile_findFuncs_error\<close>). For the stage of annotation parsing it does not:
  \<^verbatim>\<open>fmt.Errorf("parse ignore profile")\<close> has no \<^verbatim>\<open>%w\<close> and drops the error of the
  annotation parser (\<open>convertProfile_annotation_error\<close>). In the example the annotation
  parser fails with its own error, and the error that \<^verbatim>\<open>Parse\<close> returns is
  \<^verbatim>\<open>covert cover profile: parse ignore profile\<close>, which does not carry it.
\<close>

theorem annotation_error_not_wrapped:
  "returned (Parse exEnv exParser []) =
     Returns (None, Some (ErrorfW ''covert cover profile'' (Errorf ''parse ignore profile'')))
   \<and> ParseIgnoreProfiles exEnv ''/src/m/pkg/a.go''
        \<lparr>Profile.FileName = ''m/pkg/a.go'', Blocks = []\<rparr> = Inl (Cause ''AnnotationError'')
   \<and> \<not> carries (ErrorfW ''covert cover profile'' (Errorf ''parse ignore profile''))
          (Cause ''AnnotationError'')"
proof -
  have "returned (convertProfile exEnv exParser
          \<lparr>Profile.FileName = ''m/pkg/a.go'', Blocks = []\<rparr> None) =
        Returns (Some (Errorf ''parse ignore profile''))"
    by (simp add: convertProfile_def exParser_def exEnv_findFile Let_def)
       (simp add: exEnv_def)
  then have "returned (convertProfiles exEnv exParser
          [\<lparr>Profile.FileName = ''m/pkg/a.go'', Blocks = []\<rparr>] []) =
        Returns (Some (ErrorfW ''covert cover profile'' (Errorf ''parse ignore profile'')))"
    by (auto split: outcome.splits option.splits prod.splits)
  moreover have "ParseProfiles exEnv ''c.out'' = Inr [\<lparr>Profile.FileName = ''m/pkg/a.go'', Blocks = []\<rparr>]"
    by (simp add: exEnv_def)
  ultimately have "returned (Parse exEnv exParser []) =
     Returns (None, Some (ErrorfW ''covert cover profile'' (Errorf ''parse ignore profile'')))"
    by (auto simp: Parse_def exParser_def split: outcome.splits option.splits prod.splits)
  then show ?thesis
    by (simp add: exEnv_def)
qed


end
